theory Spec2Isabelle
  imports Complex_Main
begin

section \<open>Numeric conventions\<close>

text \<open>
  The programs compute with Python floats. Throughout this development a float is
  idealised as a real number: rounding error, overflow, NaN and infinities are not
  part of the model. Python's unbounded integers are \<^typ>\<open>int\<close>.
\<close>

text \<open>Python's \<open>int(x)\<close> on a float: truncation towards zero.\<close>

definition py_int :: "real \<Rightarrow> int" where
  "py_int r = (if 0 \<le> r then \<lfloor>r\<rfloor> else \<lceil>r\<rceil>)"

text \<open>Python's \<open>math.atan2(y, x)\<close>, with \<open>atan2(0, 0) = 0\<close>.\<close>

definition atan2 :: "real \<Rightarrow> real \<Rightarrow> real" where
  "atan2 y x =
     (if 0 < x then arctan (y / x)
      else if x < 0 then (if 0 \<le> y then arctan (y / x) + pi else arctan (y / x) - pi)
      else if 0 < y then pi / 2
      else if y < 0 then - (pi / 2)
      else 0)"

text \<open>Python's \<open>math.dist(p, q)\<close> on two points of the plane.\<close>

definition dist2 :: "real \<times> real \<Rightarrow> real \<times> real \<Rightarrow> real" where
  "dist2 p q = sqrt ((fst p - fst q)\<^sup>2 + (snd p - snd q)\<^sup>2)"

text \<open>Python's \<open>round(x, 3)\<close>: to the nearest multiple of 1/1000, ties to even.\<close>

definition round_half_even :: "real \<Rightarrow> int" where
  "round_half_even r =
     (let f = \<lfloor>r\<rfloor>; d = r - of_int f in
      if d < 1 / 2 then f
      else if 1 / 2 < d then f + 1
      else if even f then f else f + 1)"

definition py_round3 :: "real \<Rightarrow> real" where
  "py_round3 x = of_int (round_half_even (x * 1000)) / 1000"

text \<open>Python's \<open>round(x, 1)\<close>.\<close>

definition py_round1 :: "real \<Rightarrow> real" where
  "py_round1 x = of_int (round_half_even (x * 10)) / 10"

section \<open>Trajectory generators (\<open>kinematic_part/IK3.py\<close>)\<close>

text \<open>A Cartesian sample \<open>(x, y, pen)\<close>; the pen state is the integer 0 (up) or 1 (down).\<close>

type_synonym sample = "real \<times> real \<times> int"

text \<open>
  A division by a float zero raises \<open>ZeroDivisionError\<close> in Python; the generators
  return \<open>None\<close> in that case and \<open>Some\<close> of the sample list otherwise.
\<close>

definition get_quintic_scalar :: "real \<Rightarrow> real \<Rightarrow> real" where
  "get_quintic_scalar t T =
     (if T \<le> t then 1
      else if t \<le> 0 then 0
      else (let tau = t / T in 10 * tau ^ 3 - 15 * tau ^ 4 + 6 * tau ^ 5))"

text \<open>The sample count of a travel move: at least five ticks.\<close>

definition travel_num_samples :: "real \<Rightarrow> real \<Rightarrow> real \<Rightarrow> int" where
  "travel_num_samples d speed dt =
     (let duration = d / speed;
          duration = (if duration < dt then dt else duration);
          num_samples = py_int (duration / dt)
      in if num_samples < 5 then 5 else num_samples)"

definition travel_sample ::
  "real \<times> real \<Rightarrow> real \<times> real \<Rightarrow> real \<Rightarrow> real \<Rightarrow> int \<Rightarrow> nat \<Rightarrow> sample" where
  "travel_sample start_p end_p dt duration pen_state i =
     (let curr_time = real i * dt;
          s = get_quintic_scalar curr_time duration;
          nx = fst start_p + (fst end_p - fst start_p) * s;
          ny = snd start_p + (snd end_p - snd start_p) * s
      in (nx, ny, pen_state))"

definition interpolate_travel ::
  "real \<times> real \<Rightarrow> real \<times> real \<Rightarrow> real \<Rightarrow> real \<Rightarrow> int \<Rightarrow> sample list option" where
  "interpolate_travel start_p end_p speed dt pen_state =
     (let d = dist2 start_p end_p in
      if d < 0.001 then Some []
      else if speed = 0 \<or> dt = 0 then None
      else
        (let num_samples = travel_num_samples d speed dt;
             duration = of_int num_samples * dt
         in Some (map (travel_sample start_p end_p dt duration pen_state)
                    [0 ..< nat num_samples])))"

definition linear_sample ::
  "real \<times> real \<Rightarrow> real \<times> real \<Rightarrow> int \<Rightarrow> int \<Rightarrow> nat \<Rightarrow> sample" where
  "linear_sample start_p end_p num_samples pen_state i =
     (let t = real i / of_int num_samples;
          nx = fst start_p + (fst end_p - fst start_p) * t;
          ny = snd start_p + (snd end_p - snd start_p) * t
      in (nx, ny, pen_state))"

definition interpolate_linear ::
  "real \<times> real \<Rightarrow> real \<times> real \<Rightarrow> real \<Rightarrow> real \<Rightarrow> int \<Rightarrow> sample list option" where
  "interpolate_linear start_p end_p speed dt pen_state =
     (let d = dist2 start_p end_p in
      if d < 0.001 then Some []
      else if speed = 0 then None
      else
        (let duration = d / speed in
         if duration < dt then Some [(fst end_p, snd end_p, pen_state)]
         else if dt = 0 then None
         else
           (let num_samples = py_int (duration / dt)
            in Some (map (linear_sample start_p end_p num_samples pen_state)
                       [1 ..< nat (num_samples + 1)]))))"

section \<open>Robot kinematics (\<open>kinematic_part/IK3.py\<close>)\<close>

record ScaraRobot =
  l1 :: real
  l2 :: real

definition L1 :: real where "L1 = 155"
definition L2 :: real where "L2 = 160"
definition DT :: real where "DT = 0.02"

definition STEPS_PER_REV :: real where "STEPS_PER_REV = 200"
definition MICROSTEPS :: real where "MICROSTEPS = 32"
definition GEAR_RATIO_J1 :: real where "GEAR_RATIO_J1 = 2"
definition GEAR_RATIO_J2 :: real where "GEAR_RATIO_J2 = 2.5"

definition STEPS_PER_RAD_J1 :: real where
  "STEPS_PER_RAD_J1 = (STEPS_PER_REV * MICROSTEPS * GEAR_RATIO_J1) / (2 * pi)"
definition STEPS_PER_RAD_J2 :: real where
  "STEPS_PER_RAD_J2 = (STEPS_PER_REV * MICROSTEPS * GEAR_RATIO_J2) / (2 * pi)"

definition TRAVEL_SPEED :: real where "TRAVEL_SPEED = 50"
definition DRAW_SPEED :: real where "DRAW_SPEED = 30"
definition PEN_DOWN_DELAY :: real where "PEN_DOWN_DELAY = 2"

text \<open>The raw value of \<open>c2 = numerator / denom\<close> in \<open>inverse_kinematics\<close>.\<close>

definition cos_theta2_raw :: "ScaraRobot \<Rightarrow> real \<Rightarrow> real \<Rightarrow> real" where
  "cos_theta2_raw r x y = (x\<^sup>2 + y\<^sup>2 - (l1 r)\<^sup>2 - (l2 r)\<^sup>2) / (2 * l1 r * l2 r)"

text \<open>The two clamping statements \<open>if c2 > 1.0: c2 = 1.0\<close> and \<open>if c2 < -1.0: c2 = -1.0\<close>.\<close>

definition clamp_c2 :: "real \<Rightarrow> real" where
  "clamp_c2 c = (let c = (if 1 < c then 1 else c) in if c < - 1 then - 1 else c)"

text \<open>
  \<open>ScaraRobot.inverse_kinematics\<close>. Every return statement yields a pair of numbers.
  The square root is applied to \<open>1 - c2\<^sup>2\<close> after clamping, so its argument is never
  negative and \<open>math.sqrt\<close> cannot raise.
\<close>

definition inverse_kinematics :: "ScaraRobot \<Rightarrow> real \<Rightarrow> real \<Rightarrow> real \<times> real" where
  "inverse_kinematics r x y =
     (let denom = 2 * l1 r * l2 r in
      if denom = 0 then (0, 0)
      else
        (let c2 = clamp_c2 (cos_theta2_raw r x y);
             s2 = sqrt (1 - c2\<^sup>2);
             theta2 = atan2 s2 c2;
             den_k = x\<^sup>2 + y\<^sup>2
         in if den_k = 0 then (0, 0)
            else
              (let term = l1 r + l2 r * c2;
                   s1 = (- x * l2 r * s2 + y * term) / den_k;
                   c1 = (y * l2 r * s2 + x * term) / den_k;
                   theta1 = atan2 s1 c1
               in (theta1, theta2))))"

definition forward_kinematics :: "ScaraRobot \<Rightarrow> real \<Rightarrow> real \<Rightarrow> real \<times> real \<times> real \<times> real" where
  "forward_kinematics r t1 t2 =
     (let xe = l1 r * cos t1;
          ye = l1 r * sin t1;
          xf = xe + l2 r * cos (t1 + t2);
          yf = ye + l2 r * sin (t1 + t2)
      in (xe, ye, xf, yf))"

text \<open>The tool point \<open>(xf, yf)\<close> of a forward-kinematics result.\<close>

definition tool_point :: "real \<times> real \<times> real \<times> real \<Rightarrow> real \<times> real" where
  "tool_point p = (case p of (xe, ye, xf, yf) \<Rightarrow> (xf, yf))"

definition robot :: ScaraRobot where
  "robot = \<lparr>l1 = L1, l2 = L2\<rparr>"

section \<open>Grid-test controller kinematics (\<open>scara_grid_test.py\<close>)\<close>

record SCARARobotController =
  ctl_L1 :: real
  ctl_L2 :: real
  max_reach :: real
  min_reach :: real

text \<open>The kinematic fields set by \<open>SCARARobotController.__init__\<close>.\<close>

definition SCARARobotController_init :: SCARARobotController where
  "SCARARobotController_init =
     \<lparr>ctl_L1 = 160, ctl_L2 = 149.5, max_reach = 160 + 149.5, min_reach = \<bar>160 - 149.5\<bar>\<rparr>"

definition degrees :: "real \<Rightarrow> real" where
  "degrees a = a * 180 / pi"

definition radians :: "real \<Rightarrow> real" where
  "radians a = a * pi / 180"

text \<open>
  \<open>SCARARobotController.inverse_kinematics\<close>; the result is \<open>(theta1, theta2, is_valid)\<close>
  in degrees, and \<open>None\<close> stands for the \<open>ZeroDivisionError\<close> of a zero link length.
\<close>

definition controller_inverse_kinematics ::
  "SCARARobotController \<Rightarrow> real \<Rightarrow> real \<Rightarrow> (real \<times> real \<times> bool) option" where
  "controller_inverse_kinematics c x y =
     (let distance = sqrt (x\<^sup>2 + y\<^sup>2) in
      if max_reach c < distance \<or> distance < min_reach c then Some (0, 0, False)
      else if 2 * ctl_L1 c * ctl_L2 c = 0 then None
      else
        (let cos_theta2 = (x\<^sup>2 + y\<^sup>2 - (ctl_L1 c)\<^sup>2 - (ctl_L2 c)\<^sup>2) / (2 * ctl_L1 c * ctl_L2 c) in
         if 1 < \<bar>cos_theta2\<bar> then Some (0, 0, False)
         else
           (let theta2 = atan2 (sqrt (1 - cos_theta2\<^sup>2)) cos_theta2;
                k1 = ctl_L1 c + ctl_L2 c * cos theta2;
                k2 = ctl_L2 c * sin theta2;
                theta1 = atan2 y x - atan2 k2 k1
            in Some (degrees theta1, degrees theta2, True))))"

definition controller_forward_kinematics ::
  "SCARARobotController \<Rightarrow> real \<Rightarrow> real \<Rightarrow> real \<times> real" where
  "controller_forward_kinematics c theta1_deg theta2_deg =
     (let theta1 = radians theta1_deg;
          theta2 = radians theta2_deg;
          x = ctl_L1 c * cos theta1 + ctl_L2 c * cos (theta1 + theta2);
          y = ctl_L1 c * sin theta1 + ctl_L2 c * sin (theta1 + theta2)
      in (x, y))"

section \<open>Trajectory builder (\<open>kinematic_part/IK3.py\<close>, main logic)\<close>

text \<open>A target of the waypoint list: the dictionary \<open>{'x': _, 'y': _, 'pen': _}\<close>.\<close>

type_synonym target = "real \<times> real \<times> int"

definition HOME_X :: real where "HOME_X = 0"

text \<open>\<open>HOME_Y = L1 + L2\<close>, for the link lengths of the robot in use.\<close>

definition HOME_Y :: "ScaraRobot \<Rightarrow> real" where
  "HOME_Y r = l1 r + l2 r"

text \<open>
  The builder state is \<open>(current_x, current_y, full_trajectory)\<close>. One iteration of the
  loop over \<open>target_list\<close>; \<open>None\<close> is an exception raised by a generator.
\<close>

definition process_target ::
  "real \<times> real \<times> sample list \<Rightarrow> target \<Rightarrow> (real \<times> real \<times> sample list) option" where
  "process_target st tg =
     (case st of (current_x, current_y, full_trajectory) \<Rightarrow>
      case tg of (target_x, target_y, target_pen) \<Rightarrow>
        (let start_pos = (current_x, current_y);
             target_pos = (target_x, target_y)
         in if dist2 start_pos target_pos < 0.001 \<and> target_pen = 1 then Some st
            else if target_pen = 0 then
              (let wait_steps = py_int (0.2 / DT);
                   full_trajectory = full_trajectory
                       @ replicate (nat wait_steps) (fst start_pos, snd start_pos, 0)
               in case interpolate_travel start_pos target_pos TRAVEL_SPEED DT 0 of
                    None \<Rightarrow> None
                  | Some moves \<Rightarrow>
                      (let moves = (if moves = [] then moves @ [(target_x, target_y, 0)] else moves)
                       in Some (target_x, target_y, full_trajectory @ moves)))
            else
              (let last_state = (if full_trajectory \<noteq> [] then snd (snd (last full_trajectory)) else 0);
                   full_trajectory =
                     (if last_state = 0
                      then full_trajectory
                        @ replicate (nat (py_int (PEN_DOWN_DELAY / DT))) (fst start_pos, snd start_pos, 1)
                      else full_trajectory)
               in case interpolate_linear start_pos target_pos DRAW_SPEED DT 1 of
                    None \<Rightarrow> None
                  | Some moves \<Rightarrow> Some (target_x, target_y, full_trajectory @ moves))))"

fun process_targets ::
  "real \<times> real \<times> sample list \<Rightarrow> target list \<Rightarrow> (real \<times> real \<times> sample list) option" where
  "process_targets st [] = Some st"
| "process_targets st (tg # tgs) =
     (case process_target st tg of None \<Rightarrow> None | Some st' \<Rightarrow> process_targets st' tgs)"

text \<open>The trajectory starts with the home position, pen up.\<close>

definition build_full_trajectory :: "ScaraRobot \<Rightarrow> target list \<Rightarrow> sample list option" where
  "build_full_trajectory r target_list =
     map_option (\<lambda>st. snd (snd st))
       (process_targets (HOME_X, HOME_Y r, [(HOME_X, HOME_Y r, 0)]) target_list)"

section \<open>Motor command generation (\<open>kinematic_part/IK3.py\<close>)\<close>

record MotorCommand =
  Time :: real
  J1_Pos :: int
  J1_Dir :: int
  J1_Delta :: int
  J1_Hz :: real
  J2_Pos :: int
  J2_Dir :: int
  J2_Delta :: int
  J2_Hz :: real
  Pen :: int

text \<open>
  The command loop tests \<open>t1 is None\<close> on the result of the inverse kinematics it calls.
  The loop is therefore modelled over any inverse-kinematics function \<open>ik\<close> whose result
  is \<open>None\<close> (the pair the test recognises) or \<open>Some (t1, t2)\<close>. The arguments are the
  two home offsets, the row index \<open>i\<close> of \<open>enumerate\<close>, and \<open>prev_steps_1\<close>,
  \<open>prev_steps_2\<close>.
\<close>

fun command_rows ::
  "(real \<Rightarrow> real \<Rightarrow> (real \<times> real) option) \<Rightarrow> int \<Rightarrow> int \<Rightarrow> nat \<Rightarrow> int \<Rightarrow> int
     \<Rightarrow> sample list \<Rightarrow> MotorCommand list" where
  "command_rows ik OFFSET_STEPS_1 OFFSET_STEPS_2 i prev_steps_1 prev_steps_2 [] = []"
| "command_rows ik OFFSET_STEPS_1 OFFSET_STEPS_2 i prev_steps_1 prev_steps_2 ((x, y, pen) # rest) =
     (let (curr_steps_1, curr_steps_2) =
            (case ik x y of
               None \<Rightarrow> (prev_steps_1, prev_steps_2)
             | Some (t1, t2) \<Rightarrow>
                 (let raw_steps_1 = py_int (t1 * STEPS_PER_RAD_J1);
                      raw_steps_2 = py_int (t2 * STEPS_PER_RAD_J2)
                  in ((raw_steps_1 - OFFSET_STEPS_1) * - 1, (raw_steps_2 - OFFSET_STEPS_2) * - 1)));
          delta_1 = curr_steps_1 - prev_steps_1;
          delta_2 = curr_steps_2 - prev_steps_2;
          dir_1 = (if 0 \<le> delta_1 then 1 else 0);
          dir_2 = (if 0 \<le> delta_2 then 1 else 0);
          hz_1 = of_int \<bar>delta_1\<bar> / DT;
          hz_2 = of_int \<bar>delta_2\<bar> / DT
      in \<lparr>Time = py_round3 (real i * DT),
          J1_Pos = curr_steps_1, J1_Dir = dir_1, J1_Delta = \<bar>delta_1\<bar>, J1_Hz = py_round1 hz_1,
          J2_Pos = curr_steps_2, J2_Dir = dir_2, J2_Delta = \<bar>delta_2\<bar>, J2_Hz = py_round1 hz_2,
          Pen = pen\<rparr>
         # command_rows ik OFFSET_STEPS_1 OFFSET_STEPS_2 (Suc i) curr_steps_1 curr_steps_2 rest)"

text \<open>
  The whole of section 6: the home offsets, then the loop from \<open>prev_steps = 0\<close>.
  A \<open>None\<close> at the home position makes \<open>int(t1_home * STEPS_PER_RAD_J1)\<close> raise.
\<close>

definition motor_commands ::
  "(real \<Rightarrow> real \<Rightarrow> (real \<times> real) option) \<Rightarrow> real \<times> real \<Rightarrow> sample list
     \<Rightarrow> MotorCommand list option" where
  "motor_commands ik home full_trajectory =
     (case ik (fst home) (snd home) of
        None \<Rightarrow> None
      | Some (t1_home, t2_home) \<Rightarrow>
          (let OFFSET_STEPS_1 = py_int (t1_home * STEPS_PER_RAD_J1);
               OFFSET_STEPS_2 = py_int (t2_home * STEPS_PER_RAD_J2)
           in Some (command_rows ik OFFSET_STEPS_1 OFFSET_STEPS_2 0 0 0 full_trajectory)))"

text \<open>The inverse kinematics the program passes: \<open>robot.inverse_kinematics\<close>.\<close>

definition robot_ik :: "ScaraRobot \<Rightarrow> real \<Rightarrow> real \<Rightarrow> (real \<times> real) option" where
  "robot_ik r x y = Some (inverse_kinematics r x y)"

text \<open>Sections 5 and 6 together, from a waypoint list to the command table.\<close>

definition generate_commands :: "ScaraRobot \<Rightarrow> target list \<Rightarrow> MotorCommand list option" where
  "generate_commands r target_list =
     (case build_full_trajectory r target_list of
        None \<Rightarrow> None
      | Some full_trajectory \<Rightarrow> motor_commands (robot_ik r) (HOME_X, HOME_Y r) full_trajectory)"

section \<open>Command dispatch (\<open>trajectory_sender_grid_3.py\<close>, \<open>trajectory_sender.py\<close>)\<close>

text \<open>
  The calls a sender makes on the PLC library, and the lines it prints. A run of a sender
  is the list of calls it attempted, in order, with the list of lines it printed, from
  the first row of the table on. The connection set-up, the polling of \<open>M3\<close> that
  \<open>trajectory_sender_grid_3.py\<close> does before the first row, and the pacing by
  \<open>time.sleep\<close> are not part of the model; the rows are taken as read from the CSV file.
\<close>

datatype plc_call =
    write_sign_Dword string "int list"
  | write_bit string "int list"
  | read_bit string

datatype message =
    Error_at_row nat
  | Stopping_execution
  | Serving_row nat int
  | Row_progress nat
  | M3_trigger_started nat
  | Trajectory_execution_complete
  | M3_trigger_disabled

text \<open>
  The PLC as the sender sees it: whether a call made while row \<open>i\<close> is processed returns
  (\<open>True\<close>) or raises, the list \<open>read_bit\<close> returns for \<open>M3\<close> in row \<open>i\<close>, and
  whether the write after the loop returns.
\<close>

record plc_env =
  call_ok :: "nat \<Rightarrow> plc_call \<Rightarrow> bool"
  m3_status :: "nat \<Rightarrow> int list"
  final_ok :: bool

text \<open>
  The calls of one \<open>try\<close> block, made in order until one raises: the calls attempted,
  and whether all of them returned.
\<close>

fun attempt :: "(plc_call \<Rightarrow> bool) \<Rightarrow> plc_call list \<Rightarrow> plc_call list \<times> bool" where
  "attempt ok [] = ([], True)"
| "attempt ok (c # cs) =
     (if ok c then (let (tr, r) = attempt ok cs in (c # tr, r)) else ([c], False))"

text \<open>
  \<open>trajectory_sender_grid_3.py\<close>: the calls of the \<open>try\<close> block for one row of the
  table (the CSV fields read back with \<open>int\<close> and \<open>int(float(_))\<close>).
\<close>

definition grid_row_calls :: "MotorCommand \<Rightarrow> plc_call list" where
  "grid_row_calls row =
     (let d100_value = J1_Pos row;
          d102_value = py_int (J1_Hz row);
          d104_value = J2_Pos row;
          d106_value = py_int (J2_Hz row);
          on_off = Pen row
      in [write_sign_Dword ''D100'' [d100_value, d102_value, d104_value, d106_value],
          write_bit ''M4'' [on_off]])"

fun grid_stream :: "plc_env \<Rightarrow> nat \<Rightarrow> MotorCommand list \<Rightarrow> plc_call list \<times> message list" where
  "grid_stream env i [] = ([], [])"
| "grid_stream env i (row # rows) =
     (let (tr, ok) = attempt (call_ok env i) (grid_row_calls row) in
      if \<not> ok then (tr, [Error_at_row i, Stopping_execution])
      else
        (let (calls, msgs) = grid_stream env (Suc i) rows in
         (tr @ calls,
          Serving_row (i + 1) (Pen row) # (if i mod 10 = 0 then [Row_progress i] else []) @ msgs)))"

text \<open>The loop over the table, then the write of 0 to \<open>M4\<close> that follows it.\<close>

definition grid_dispatch :: "plc_env \<Rightarrow> MotorCommand list \<Rightarrow> plc_call list \<times> message list" where
  "grid_dispatch env rows =
     (let (calls, msgs) = grid_stream env 0 rows in
      (calls @ [write_bit ''M4'' [0]],
       msgs @ (if final_ok env then [Trajectory_execution_complete] else [])))"

text \<open>
  \<open>trajectory_sender.py\<close>: the calls of the \<open>try\<close> block for row \<open>i\<close>; \<open>M3\<close> is read
  when a position is non-zero and set when the list read is non-empty with first element 0.
\<close>

definition sender_row_calls :: "plc_env \<Rightarrow> nat \<Rightarrow> MotorCommand \<Rightarrow> plc_call list" where
  "sender_row_calls env i row =
     (let d100_value = J2_Pos row;
          d102_value = py_int (J2_Hz row);
          d104_value = J1_Pos row;
          d106_value = py_int (J1_Hz row)
      in (if d100_value \<noteq> 0 \<or> d104_value \<noteq> 0
          then read_bit ''M3''
               # (if m3_status env i \<noteq> [] \<and> hd (m3_status env i) = 0
                  then [write_bit ''M3'' [1]] else [])
          else [])
         @ [write_sign_Dword ''D100'' [d100_value, d102_value, d104_value, d106_value]])"

text \<open>
  The loop of \<open>trajectory_sender.py\<close>, with the flag \<open>m3_enabled\<close>. The line
  "M3 trigger started" is printed as soon as the write to \<open>M3\<close> has returned, also when
  the register write after it raises.
\<close>

fun sender_stream ::
  "plc_env \<Rightarrow> nat \<Rightarrow> bool \<Rightarrow> MotorCommand list \<Rightarrow> plc_call list \<times> message list" where
  "sender_stream env i m3_enabled [] = ([], [])"
| "sender_stream env i m3_enabled (row # rows) =
     (let (tr, ok) = attempt (call_ok env i) (sender_row_calls env i row);
          started = (write_bit ''M3'' [1] \<in> set tr
                     \<and> call_ok env i (write_bit ''M3'' [1]) \<and> \<not> m3_enabled);
          start_msg = (if started then [M3_trigger_started i] else [])
      in if \<not> ok then (tr, start_msg @ [Error_at_row i, Stopping_execution])
         else
           (let (calls, msgs) = sender_stream env (Suc i) (m3_enabled \<or> started) rows in
            (tr @ calls,
             start_msg @ (if i mod 100 = 0 then [Row_progress i] else []) @ msgs)))"

definition sender_dispatch :: "plc_env \<Rightarrow> MotorCommand list \<Rightarrow> plc_call list \<times> message list" where
  "sender_dispatch env rows =
     (let (calls, msgs) = sender_stream env 0 False rows in
      (calls @ [write_bit ''M3'' [0]],
       msgs @ [Trajectory_execution_complete] @ (if final_ok env then [M3_trigger_disabled] else [])))"

section \<open>Auxiliary notions for the proofs\<close>

text \<open>The polynomial of the quintic time scaling.\<close>

definition quintic_poly :: "real \<Rightarrow> real" where
  "quintic_poly tau = 10 * tau ^ 3 - 15 * tau ^ 4 + 6 * tau ^ 5"

text \<open>One row of the command loop: the head of the table for a one-sample trajectory.\<close>

definition command_row ::
  "(real \<Rightarrow> real \<Rightarrow> (real \<times> real) option) \<Rightarrow> int \<Rightarrow> int \<Rightarrow> nat \<Rightarrow> int \<Rightarrow> int
     \<Rightarrow> sample \<Rightarrow> MotorCommand" where
  "command_row ik o1 o2 i p1 p2 smp = hd (command_rows ik o1 o2 i p1 p2 [smp])"

text \<open>The position of a sample.\<close>

definition sample_pos :: "sample \<Rightarrow> real \<times> real" where
  "sample_pos smp = (fst smp, fst (snd smp))"

text \<open>
  A call fails at row \<open>k\<close> of a table: every call of the rows before \<open>k\<close> returns and
  some call of row \<open>k\<close> raises.
\<close>

definition grid_fails_at :: "plc_env \<Rightarrow> MotorCommand list \<Rightarrow> nat \<Rightarrow> bool" where
  "grid_fails_at env rows k =
     (k < length rows
      \<and> (\<forall>i < k. \<forall>c \<in> set (grid_row_calls (rows ! i)). call_ok env i c)
      \<and> (\<exists>c \<in> set (grid_row_calls (rows ! k)). \<not> call_ok env k c))"

definition sender_fails_at :: "plc_env \<Rightarrow> MotorCommand list \<Rightarrow> nat \<Rightarrow> bool" where
  "sender_fails_at env rows k =
     (k < length rows
      \<and> (\<forall>i < k. \<forall>c \<in> set (sender_row_calls env i (rows ! i)). call_ok env i c)
      \<and> (\<exists>c \<in> set (sender_row_calls env k (rows ! k)). \<not> call_ok env k c))"

text \<open>The printed lines that report an error.\<close>

definition is_error :: "message \<Rightarrow> bool" where
  "is_error m = (case m of Error_at_row j \<Rightarrow> True | _ \<Rightarrow> False)"

text \<open>A table row and a PLC whose every call raises at row \<open>k\<close>, for examples.\<close>

definition example_row :: "int \<Rightarrow> int \<Rightarrow> MotorCommand" where
  "example_row p pen =
     \<lparr>Time = 0, J1_Pos = p, J1_Dir = 1, J1_Delta = 0, J1_Hz = 500,
      J2_Pos = 0, J2_Dir = 1, J2_Delta = 0, J2_Hz = 0, Pen = pen\<rparr>"

definition example_env :: "nat \<Rightarrow> plc_env" where
  "example_env k = \<lparr>call_ok = (\<lambda>i c. i \<noteq> k), m3_status = (\<lambda>i. [0]), final_ok = True\<rparr>"

text \<open>The value \<open>cos_theta2\<close> of the controller's inverse kinematics.\<close>

definition controller_cos_theta2 :: "SCARARobotController \<Rightarrow> real \<Rightarrow> real \<Rightarrow> real" where
  "controller_cos_theta2 c x y =
     (x\<^sup>2 + y\<^sup>2 - (ctl_L1 c)\<^sup>2 - (ctl_L2 c)\<^sup>2) / (2 * ctl_L1 c * ctl_L2 c)"

section \<open>Degenerate segments\<close>

text \<open>
  Claim C8. When the start and end point of a segment are less than 0.001 mm apart,
  the travel profiler and the draw profiler both return the empty sample sequence.
\<close>

theorem degenerate_segment_empty:
  assumes "dist2 start_p end_p < 0.001"
  shows "interpolate_travel start_p end_p speed dt pen_state = Some []
       \<and> interpolate_linear start_p end_p speed dt pen_state = Some []"
  using assms by (simp add: interpolate_travel_def interpolate_linear_def)

theorem degenerate_segment_empty_witness:
  "dist2 (3, 4) (3, 4) < 0.001
   \<and> interpolate_travel (3, 4) (3, 4) 50 0.02 0 = Some []
   \<and> interpolate_linear (3, 4) (3, 4) 50 0.02 0 = Some []"
proof -
  have h: "dist2 (3, 4) (3, 4) < 0.001" by (simp add: dist2_def)
  show ?thesis using h degenerate_segment_empty [OF h, of 50 "0.02" 0] by simp
qed

section \<open>The quintic time scaling\<close>

lemma quintic_inner:
  assumes "0 < t" "t < T"
  shows "get_quintic_scalar t T = quintic_poly (t / T)"
  using assms by (simp add: get_quintic_scalar_def quintic_poly_def Let_def)

lemma quintic_poly_deriv:
  "(quintic_poly has_real_derivative 30 * x\<^sup>2 * (1 - x)\<^sup>2) (at x)"
  unfolding quintic_poly_def
  by (auto intro!: derivative_eq_intros simp: power2_eq_square power3_eq_cube power4_eq_xxxx algebra_simps)

lemma quintic_poly_strict_mono:
  assumes "0 < a" "a < b" "b < 1"
  shows "quintic_poly a < quintic_poly b"
proof (rule DERIV_pos_imp_increasing [OF \<open>a < b\<close>])
  fix x assume "a \<le> x" "x \<le> b"
  then have "0 < x" "x < 1" using assms by auto
  then have "0 < 30 * x\<^sup>2 * (1 - x)\<^sup>2" by simp
  then show "\<exists>y. (quintic_poly has_real_derivative y) (at x) \<and> 0 < y"
    using quintic_poly_deriv by blast
qed

lemma quintic_poly_low:
  assumes "0 \<le> x" "x \<le> 1"
  shows "0 \<le> quintic_poly x" "quintic_poly x \<le> 10 * x ^ 3"
proof -
  have e: "quintic_poly x = x ^ 3 * (10 - 15 * x + 6 * x\<^sup>2)"
    by (simp add: quintic_poly_def algebra_simps power2_eq_square power3_eq_cube power4_eq_xxxx eval_nat_numeral)
  have "x\<^sup>2 \<le> x" using assms by (simp add: power2_eq_square mult_left_le)
  then have b2: "10 - 15 * x + 6 * x\<^sup>2 \<le> 10" using assms by linarith
  have "10 - 15 * x + 6 * x\<^sup>2 = 6 * (x - 5 / 4)\<^sup>2 + 5 / 8"
    by (simp add: power2_eq_square algebra_simps)
  then have b1: "0 \<le> 10 - 15 * x + 6 * x\<^sup>2" by simp
  note b = b1 b2
  show "0 \<le> quintic_poly x" using e b assms by simp
  have "x ^ 3 * (10 - 15 * x + 6 * x\<^sup>2) \<le> x ^ 3 * 10"
    using b2 assms by (intro mult_left_mono) auto
  then show "quintic_poly x \<le> 10 * x ^ 3" using e by simp
qed


lemma quintic_poly_high:
  assumes "0 \<le> x" "x \<le> 1"
  shows "quintic_poly x \<le> 1" "1 - quintic_poly x \<le> 10 * (1 - x) ^ 3"
proof -
  have e: "1 - quintic_poly x = (1 - x) ^ 3 * (1 + 3 * x + 6 * x\<^sup>2)"
    by (simp add: quintic_poly_def algebra_simps power2_eq_square power3_eq_cube power4_eq_xxxx eval_nat_numeral)
  have "x\<^sup>2 \<le> x" using assms by (simp add: power2_eq_square mult_left_le)
  then have b: "0 \<le> 1 + 3 * x + 6 * x\<^sup>2" "1 + 3 * x + 6 * x\<^sup>2 \<le> 10"
    using assms by auto
  have "0 \<le> 1 - quintic_poly x" using e b assms by simp
  then show "quintic_poly x \<le> 1" by simp
  have "(1 - x) ^ 3 * (1 + 3 * x + 6 * x\<^sup>2) \<le> (1 - x) ^ 3 * 10"
    using b assms by (intro mult_left_mono) auto
  then show "1 - quintic_poly x \<le> 10 * (1 - x) ^ 3" using e by simp
qed

lemma quintic_deriv_at_0:
  assumes "0 < T"
  shows "((\<lambda>t. get_quintic_scalar t T) has_real_derivative 0) (at 0)"
proof -
  have bound: "norm ((get_quintic_scalar (0 + h) T - get_quintic_scalar 0 T) / h)
                 \<le> norm (h\<^sup>2) * (10 / T ^ 3)" if "h \<noteq> 0" "dist h 0 < T" for h
  proof (cases "h < 0")
    case True
    then show ?thesis using assms by (simp add: get_quintic_scalar_def)
  next
    case False
    then have h: "0 < h" "h < T" using that by (auto simp: dist_real_def)
    have z: "get_quintic_scalar 0 T = 0" using assms by (simp add: get_quintic_scalar_def)
    have "0 \<le> h / T" "h / T \<le> 1" using h assms by auto
    from quintic_poly_low [OF this]
    have "0 \<le> quintic_poly (h / T)" "quintic_poly (h / T) \<le> 10 * (h / T) ^ 3" by auto
    then have "quintic_poly (h / T) / h \<le> 10 * (h / T) ^ 3 / h" "0 \<le> quintic_poly (h / T) / h"
      using h by (auto simp: divide_right_mono)
    moreover have "10 * (h / T) ^ 3 / h = h\<^sup>2 * (10 / T ^ 3)"
      using h by (simp add: power_divide power2_eq_square power3_eq_cube mult_ac)
    ultimately show ?thesis using h z quintic_inner [OF h] by simp
  qed
  have "((\<lambda>h. h\<^sup>2) \<longlongrightarrow> 0) (at (0::real))"
    by (rule tendsto_eq_intros | simp)+
  moreover have "eventually (\<lambda>h. norm ((get_quintic_scalar (0 + h) T - get_quintic_scalar 0 T) / h)
                 \<le> norm (h\<^sup>2) * (10 / T ^ 3)) (at 0)"
    unfolding eventually_at using assms bound by (intro exI [of _ T]) auto
  ultimately have "((\<lambda>h. (get_quintic_scalar (0 + h) T - get_quintic_scalar 0 T) / h) \<longlongrightarrow> 0) (at 0)"
    by (rule tendsto_0_le)
  then show ?thesis by (simp only: DERIV_def)
qed


lemma quintic_deriv_at_T:
  assumes "0 < T"
  shows "((\<lambda>t. get_quintic_scalar t T) has_real_derivative 0) (at T)"
proof -
  have bound: "norm ((get_quintic_scalar (T + h) T - get_quintic_scalar T T) / h)
                 \<le> norm (h\<^sup>2) * (10 / T ^ 3)" if "h \<noteq> 0" "dist h 0 < T" for h
  proof (cases "0 < h")
    case True
    then show ?thesis using assms by (simp add: get_quintic_scalar_def)
  next
    case False
    then have h: "0 < T + h" "T + h < T" "h < 0" using that by (auto simp: dist_real_def)
    have z: "get_quintic_scalar T T = 1" by (simp add: get_quintic_scalar_def)
    have tau: "0 \<le> (T + h) / T" "(T + h) / T \<le> 1" using h assms by auto
    define k where "k = - h"
    have k: "0 < k" "h = - k" using h by (auto simp: k_def)
    define q where "q = 1 - quintic_poly ((T + h) / T)"
    have one: "1 - (T + h) / T = k / T" using assms k by (simp add: field_simps)
    from quintic_poly_high [OF tau] one
    have "0 \<le> q" "q \<le> 10 * (k / T) ^ 3" by (auto simp: q_def)
    then have "q / k \<le> 10 * (k / T) ^ 3 / k" "0 \<le> q / k"
      using k by (auto simp: divide_right_mono)
    moreover have "10 * (k / T) ^ 3 / k = h\<^sup>2 * (10 / T ^ 3)"
      using k by (simp add: power_divide power2_eq_square power3_eq_cube mult_ac)
    moreover have "(quintic_poly ((T + h) / T) - 1) / h = q / k"
      using k by (simp add: q_def field_simps)
    ultimately show ?thesis using h z quintic_inner [OF h(1,2)] by simp
  qed
  have "((\<lambda>h. h\<^sup>2) \<longlongrightarrow> 0) (at (0::real))"
    by (rule tendsto_eq_intros | simp)+
  moreover have "eventually (\<lambda>h. norm ((get_quintic_scalar (T + h) T - get_quintic_scalar T T) / h)
                 \<le> norm (h\<^sup>2) * (10 / T ^ 3)) (at 0)"
    unfolding eventually_at using assms bound by (intro exI [of _ T]) auto
  ultimately have "((\<lambda>h. (get_quintic_scalar (T + h) T - get_quintic_scalar T T) / h) \<longlongrightarrow> 0) (at 0)"
    by (rule tendsto_0_le)
  then show ?thesis by (simp only: DERIV_def)
qed

text \<open>
  Claim C7. For a duration \<open>T > 0\<close> the quintic time scaling is 0 at time 0 and 1 at
  time \<open>T\<close>, is strictly increasing on the open interval from 0 to \<open>T\<close>, and has
  first derivative 0 at time 0 and at time \<open>T\<close>.
\<close>

theorem quintic_scalar_profile:
  assumes "0 < T"
  shows "get_quintic_scalar 0 T = 0
       \<and> get_quintic_scalar T T = 1
       \<and> (\<forall>a b. 0 < a \<and> a < b \<and> b < T \<longrightarrow> get_quintic_scalar a T < get_quintic_scalar b T)
       \<and> ((\<lambda>t. get_quintic_scalar t T) has_real_derivative 0) (at 0)
       \<and> ((\<lambda>t. get_quintic_scalar t T) has_real_derivative 0) (at T)"
proof -
  have mono: "get_quintic_scalar a T < get_quintic_scalar b T" if "0 < a" "a < b" "b < T" for a b
  proof -
    have "0 < a / T" "a / T < b / T" "b / T < 1" using that assms by (auto simp: divide_strict_right_mono)
    then have "quintic_poly (a / T) < quintic_poly (b / T)" by (rule quintic_poly_strict_mono)
    moreover have "a < T" "0 < b" using that by auto
    ultimately show ?thesis using that by (simp add: quintic_inner)
  qed
  have "get_quintic_scalar 0 T = 0" using assms by (simp add: get_quintic_scalar_def)
  moreover have "get_quintic_scalar T T = 1" by (simp add: get_quintic_scalar_def)
  ultimately show ?thesis
    using mono quintic_deriv_at_0 [OF assms] quintic_deriv_at_T [OF assms] by blast
qed

theorem quintic_scalar_profile_witness:
  "(0::real) < 1
   \<and> get_quintic_scalar 0 1 = 0
   \<and> get_quintic_scalar 1 1 = 1
   \<and> (0::real) < 1 / 4 \<and> (1::real) / 4 < 1 / 2 \<and> (1::real) / 2 < 1
   \<and> get_quintic_scalar (1 / 4) 1 < get_quintic_scalar (1 / 2) 1
   \<and> ((\<lambda>t. get_quintic_scalar t 1) has_real_derivative 0) (at 0)
   \<and> ((\<lambda>t. get_quintic_scalar t 1) has_real_derivative 0) (at 1)"
proof -
  have h: "(0::real) < 1" by simp
  have a: "(0::real) < 1 / 4 \<and> (1::real) / 4 < 1 / 2 \<and> (1::real) / 2 < 1" by simp
  show ?thesis using h a quintic_scalar_profile [OF h] by blast
qed

section \<open>The command table\<close>

lemma command_rows_Cons:
  "command_rows ik o1 o2 i p1 p2 (smp # rest) =
     command_row ik o1 o2 i p1 p2 smp
     # command_rows ik o1 o2 (Suc i)
         (J1_Pos (command_row ik o1 o2 i p1 p2 smp)) (J2_Pos (command_row ik o1 o2 i p1 p2 smp)) rest"
  by (cases smp) (simp add: command_row_def Let_def split: prod.splits option.splits)

lemma command_row_Time: "Time (command_row ik o1 o2 i p1 p2 smp) = py_round3 (real i * DT)"
  by (cases smp) (simp add: command_row_def Let_def split: prod.splits option.splits)

text \<open>
  The hold branch of the loop: when the inverse kinematics handed to the loop returns
  \<open>None\<close> for a sample, the row keeps the step positions of the row before it.
\<close>

lemma command_row_hold:
  assumes "ik (fst smp) (fst (snd smp)) = None"
  shows "J1_Pos (command_row ik o1 o2 i p1 p2 smp) = p1"
    and "J2_Pos (command_row ik o1 o2 i p1 p2 smp) = p2"
    and "J1_Delta (command_row ik o1 o2 i p1 p2 smp) = 0"
    and "J2_Delta (command_row ik o1 o2 i p1 p2 smp) = 0"
  using assms by (cases smp; simp add: command_row_def)+

lemma command_rows_length:
  "length (command_rows ik o1 o2 i p1 p2 traj) = length traj"
  by (induction traj arbitrary: i p1 p2) (simp_all add: command_rows_Cons del: command_rows.simps(2))

lemma round_half_even_of_int: "round_half_even (of_int m) = m"
  by (simp add: round_half_even_def)

lemma py_round3_tick: "py_round3 (real n * DT) = real n * DT"
proof -
  have "real n * DT * 1000 = of_int (int (20 * n))" by (simp add: DT_def)
  then have "round_half_even (real n * DT * 1000) = int (20 * n)"
    by (simp only: round_half_even_of_int)
  then show ?thesis by (simp add: py_round3_def DT_def)
qed

lemma command_rows_Time:
  "k < length traj \<Longrightarrow>
     Time (command_rows ik o1 o2 i p1 p2 traj ! k) = real (i + k) * DT"
proof (induction traj arbitrary: i p1 p2 k)
  case Nil
  then show ?case by simp
next
  case (Cons smp rest)
  show ?case
  proof (cases k)
    case 0
    then show ?thesis by (simp add: command_rows_Cons command_row_Time py_round3_tick del: command_rows.simps(2))
  next
    case (Suc j)
    then have "j < length rest" using Cons.prems by simp
    from Cons.IH [OF this] show ?thesis using Suc
      by (simp add: command_rows_Cons del: command_rows.simps(2))
  qed
qed

lemma command_rows_hold:
  "k < length traj \<Longrightarrow> ik (fst (traj ! k)) (fst (snd (traj ! k))) = None \<Longrightarrow>
     J1_Pos (command_rows ik o1 o2 i p1 p2 traj ! k)
       = (if k = 0 then p1 else J1_Pos (command_rows ik o1 o2 i p1 p2 traj ! (k - 1)))
   \<and> J2_Pos (command_rows ik o1 o2 i p1 p2 traj ! k)
       = (if k = 0 then p2 else J2_Pos (command_rows ik o1 o2 i p1 p2 traj ! (k - 1)))
   \<and> J1_Delta (command_rows ik o1 o2 i p1 p2 traj ! k) = 0
   \<and> J2_Delta (command_rows ik o1 o2 i p1 p2 traj ! k) = 0"
proof (induction traj arbitrary: i p1 p2 k)
  case Nil
  then show ?case by simp
next
  case (Cons smp rest)
  show ?case
  proof (cases k)
    case 0
    then show ?thesis using Cons.prems
      by (simp add: command_rows_Cons command_row_hold del: command_rows.simps(2))
  next
    case (Suc j)
    then have j: "j < length rest" "ik (fst (rest ! j)) (fst (snd (rest ! j))) = None"
      using Cons.prems by simp_all
    from Cons.IH [OF j] show ?thesis using Suc
      by (cases j) (simp_all add: command_rows_Cons del: command_rows.simps(2))
  qed
qed

text \<open>
  Claim C9. In the command table of any trajectory the \<open>Time\<close> column starts at 0 and
  each row's \<open>Time\<close> is the previous row's plus exactly \<open>DT\<close>, so the column is
  strictly increasing.
\<close>

theorem command_time_column:
  "(traj \<noteq> [] \<longrightarrow> Time (command_rows ik o1 o2 0 0 0 traj ! 0) = 0)
   \<and> (\<forall>k. Suc k < length traj \<longrightarrow>
         Time (command_rows ik o1 o2 0 0 0 traj ! Suc k)
           = Time (command_rows ik o1 o2 0 0 0 traj ! k) + DT
       \<and> Time (command_rows ik o1 o2 0 0 0 traj ! k)
           < Time (command_rows ik o1 o2 0 0 0 traj ! Suc k))"
proof -
  have "Time (command_rows ik o1 o2 0 0 0 traj ! 0) = 0" if "traj \<noteq> []"
    using that command_rows_Time [of 0 traj ik o1 o2 0 0 0] by simp
  moreover have "Time (command_rows ik o1 o2 0 0 0 traj ! Suc k)
           = Time (command_rows ik o1 o2 0 0 0 traj ! k) + DT
       \<and> Time (command_rows ik o1 o2 0 0 0 traj ! k)
           < Time (command_rows ik o1 o2 0 0 0 traj ! Suc k)" if "Suc k < length traj" for k
    using that command_rows_Time [of "Suc k" traj ik o1 o2 0 0 0]
      command_rows_Time [of k traj ik o1 o2 0 0 0]
    by (simp add: algebra_simps DT_def)
  ultimately show ?thesis by blast
qed


theorem command_time_column_witness:
  "([(0, 315, 0), (1, 314, 0)] :: sample list) \<noteq> []
   \<and> Time (command_rows (\<lambda>x y. None) 0 0 0 0 0 [(0, 315, 0), (1, 314, 0)] ! 0) = 0
   \<and> Suc 0 < length ([(0, 315, 0), (1, 314, 0)] :: sample list)
   \<and> Time (command_rows (\<lambda>x y. None) 0 0 0 0 0 [(0, 315, 0), (1, 314, 0)] ! Suc 0)
        = Time (command_rows (\<lambda>x y. None) 0 0 0 0 0 [(0, 315, 0), (1, 314, 0)] ! 0) + DT
   \<and> Time (command_rows (\<lambda>x y. None) 0 0 0 0 0 [(0, 315, 0), (1, 314, 0)] ! 0)
        < Time (command_rows (\<lambda>x y. None) 0 0 0 0 0 [(0, 315, 0), (1, 314, 0)] ! Suc 0)"
proof -
  let ?traj = "[(0, 315, 0), (1, 314, 0)] :: sample list"
  have h1: "?traj \<noteq> []" by simp
  have h2: "Suc 0 < length ?traj" by simp
  from command_time_column [of ?traj "\<lambda>x y. None" 0 0] h1 h2 show ?thesis by blast
qed

section \<open>Profiles and the trajectory builder\<close>

lemma quintic_scalar_lt_1:
  assumes "t < T"
  shows "get_quintic_scalar t T < 1"
proof (cases "t \<le> 0")
  case True
  then show ?thesis using assms by (simp add: get_quintic_scalar_def)
next
  case False
  then have t: "0 < t" "t < T" using assms by auto
  then have tau: "0 < t / T" "t / T < 1" by auto
  define x where "x = t / T"
  have e: "1 - quintic_poly x = (1 - x) ^ 3 * (1 + 3 * x + 6 * x\<^sup>2)"
    by (simp add: quintic_poly_def algebra_simps power2_eq_square power3_eq_cube power4_eq_xxxx eval_nat_numeral)
  have "0 < (1 - x) ^ 3" using tau by (simp add: x_def)
  moreover have "0 < 1 + 3 * x + 6 * x\<^sup>2" using tau by (simp add: x_def add_pos_nonneg)
  ultimately have "0 < 1 - quintic_poly x" unfolding e by (rule mult_pos_pos)
  then show ?thesis using quintic_inner [OF t] by (simp add: x_def)
qed

lemma travel_num_samples_ge: "5 \<le> travel_num_samples d speed dt"
  by (simp add: travel_num_samples_def Let_def)

lemma interpolate_travel_nondegenerate:
  assumes "\<not> dist2 s e < 0.001" "speed \<noteq> 0" "dt \<noteq> 0"
  shows "interpolate_travel s e speed dt pen =
           Some (map (travel_sample s e dt (real (nat (travel_num_samples (dist2 s e) speed dt)) * dt) pen)
                   [0 ..< nat (travel_num_samples (dist2 s e) speed dt)])"
  using assms travel_num_samples_ge [of "dist2 s e" speed dt]
  by (simp add: interpolate_travel_def Let_def)

lemma positions_differ:
  assumes "\<not> dist2 s e < 0.001" "c \<noteq> 1"
  shows "(fst s + (fst e - fst s) * c, snd s + (snd e - snd s) * c) \<noteq> e"
proof
  assume eq: "(fst s + (fst e - fst s) * c, snd s + (snd e - snd s) * c) = e"
  then have "fst s + (fst e - fst s) * c = fst e" "snd s + (snd e - snd s) * c = snd e"
    by (metis fst_conv, metis snd_conv)
  then have "(fst e - fst s) * (1 - c) = 0" "(snd e - snd s) * (1 - c) = 0"
    by (simp_all add: algebra_simps)
  then have "fst s = fst e" "snd s = snd e" using assms(2) by simp_all
  then have "dist2 s e = 0" by (simp add: dist2_def)
  then show False using assms(1) by simp
qed

lemma travel_last_short:
  assumes nd: "\<not> dist2 s e < 0.001" and "0 < speed" and dt: "0 < dt"
    and mv: "interpolate_travel s e speed dt pen = Some moves"
  shows "moves \<noteq> []" and "sample_pos (last moves) \<noteq> e"
proof -
  define n where "n = nat (travel_num_samples (dist2 s e) speed dt)"
  have n5: "5 \<le> n" using travel_num_samples_ge [of "dist2 s e" speed dt] by (simp add: n_def)
  have m: "moves = map (travel_sample s e dt (real n * dt) pen) [0 ..< n]"
    using interpolate_travel_nondegenerate [of s e speed dt pen] assms by (simp add: n_def)
  show "moves \<noteq> []" using m n5 by simp
  have l: "last moves = travel_sample s e dt (real n * dt) pen (n - 1)"
    using m n5 by (simp add: last_map)
  have "real (n - 1) * dt < real n * dt" using n5 dt by simp
  then have "get_quintic_scalar (real (n - 1) * dt) (real n * dt) < 1" by (rule quintic_scalar_lt_1)
  then have "get_quintic_scalar (real (n - 1) * dt) (real n * dt) \<noteq> 1" by simp
  from positions_differ [OF nd this] show "sample_pos (last moves) \<noteq> e"
    by (simp add: l sample_pos_def travel_sample_def Let_def)
qed

lemma py_int_ge_1: "1 \<le> r \<Longrightarrow> 1 \<le> py_int r"
  by (simp add: py_int_def le_floor_iff)

lemma ticks_ge_1:
  assumes "\<not> q < dt" "0 < dt"
  shows "1 \<le> py_int (q / dt)"
proof -
  have "1 \<le> q / dt" using assms by (simp add: le_divide_eq)
  then show ?thesis by (rule py_int_ge_1)
qed

lemma interpolate_linear_nondegenerate:
  assumes nd: "\<not> dist2 s e < 0.001" and sp: "0 < speed" and dt: "0 < dt"
  defines "n \<equiv> (if dist2 s e / speed < dt then 1 else nat (py_int (dist2 s e / speed / dt)))"
  shows "interpolate_linear s e speed dt pen =
           Some (map (\<lambda>i. (fst s + (fst e - fst s) * (real i / real n),
                            snd s + (snd e - snd s) * (real i / real n), pen)) [1 ..< n + 1])"
    and "1 \<le> n"
proof -
  show "1 \<le> n"
  proof (cases "dist2 s e / speed < dt")
    case True then show ?thesis by (simp add: n_def)
  next
    case False
    from ticks_ge_1 [OF this dt] show ?thesis using False by (simp add: n_def)
  qed
  show "interpolate_linear s e speed dt pen =
           Some (map (\<lambda>i. (fst s + (fst e - fst s) * (real i / real n),
                            snd s + (snd e - snd s) * (real i / real n), pen)) [1 ..< n + 1])"
  proof (cases "dist2 s e / speed < dt")
    case True
    then show ?thesis using nd sp by (simp add: interpolate_linear_def Let_def n_def)
  next
    case False
    define m where "m = py_int (dist2 s e / speed / dt)"
    from ticks_ge_1 [OF False dt] have p: "1 \<le> m" by (simp only: m_def)
    have nm: "n = nat m" using False by (simp add: n_def m_def)
    have r: "real_of_int m = real n" using p by (simp add: nm)
    have k: "nat (m + 1) = n + 1" using p by (simp add: nm nat_add_distrib)
    have "interpolate_linear s e speed dt pen =
            Some (map (linear_sample s e m pen) [1 ..< nat (m + 1)])"
      using nd sp dt False by (simp add: interpolate_linear_def Let_def m_def)
    also have "map (linear_sample s e m pen) [1 ..< nat (m + 1)] =
          map (\<lambda>i. (fst s + (fst e - fst s) * (real i / real n),
                     snd s + (snd e - snd s) * (real i / real n), pen)) [1 ..< n + 1]"
      unfolding k by (rule map_cong) (simp_all add: linear_sample_def Let_def r)
    finally show ?thesis .
  qed
qed

lemma linear_last_end:
  assumes nd: "\<not> dist2 s e < 0.001" and sp: "0 < speed" and dt: "0 < dt"
    and mv: "interpolate_linear s e speed dt pen = Some moves"
  shows "moves \<noteq> []" and "last moves = (fst e, snd e, pen)"
proof -
  define n where "n = (if dist2 s e / speed < dt then 1 else nat (py_int (dist2 s e / speed / dt)))"
  note il = interpolate_linear_nondegenerate [OF nd sp dt, folded n_def]
  have m: "moves = map (\<lambda>i. (fst s + (fst e - fst s) * (real i / real n),
                            snd s + (snd e - snd s) * (real i / real n), pen)) [1 ..< n + 1]"
    using il(1) mv by simp
  have n1: "1 \<le> n" by (rule il(2))
  show "moves \<noteq> []" using m n1 by simp
  have "[1 ..< n + 1] \<noteq> []" "last [1 ..< n + 1] = n" using n1 by simp_all
  then show "last moves = (fst e, snd e, pen)" using n1 unfolding m
    by (simp add: last_map del: upt_Suc)
qed


lemma dwell_ticks:
  "py_int (0.2 / DT) = 10" "py_int (1 / (5 * DT)) = 10" "py_int (PEN_DOWN_DELAY / DT) = 100"
  by (simp_all add: py_int_def DT_def PEN_DOWN_DELAY_def)

lemma process_target_travel:
  assumes nd: "\<not> dist2 (cx, cy) (tx, ty) < 0.001"
  shows "\<exists>moves. interpolate_travel (cx, cy) (tx, ty) TRAVEL_SPEED DT 0 = Some moves
           \<and> moves \<noteq> []
           \<and> process_target (cx, cy, traj) (tx, ty, 0)
               = Some (tx, ty, traj @ replicate 10 (cx, cy, 0) @ moves)"
proof -
  have c: "TRAVEL_SPEED \<noteq> 0" "DT \<noteq> 0" "0 < TRAVEL_SPEED" "0 < DT"
    by (simp_all add: TRAVEL_SPEED_def DT_def)
  obtain moves where mv: "interpolate_travel (cx, cy) (tx, ty) TRAVEL_SPEED DT 0 = Some moves"
    using interpolate_travel_nondegenerate [OF nd c(1,2)] by blast
  from travel_last_short(1) [OF nd c(3,4) mv] have ne: "moves \<noteq> []" .
  have "process_target (cx, cy, traj) (tx, ty, 0)
               = Some (tx, ty, traj @ replicate 10 (cx, cy, 0) @ moves)"
    using nd mv ne by (simp add: process_target_def Let_def dwell_ticks)
  then show ?thesis using mv ne by blast
qed

lemma process_target_draw:
  assumes nd: "\<not> dist2 (cx, cy) (tx, ty) < 0.001" and pen: "pen \<noteq> 0"
  shows "\<exists>moves pre. interpolate_linear (cx, cy) (tx, ty) DRAW_SPEED DT 1 = Some moves
           \<and> moves \<noteq> []
           \<and> process_target (cx, cy, traj) (tx, ty, pen) = Some (tx, ty, pre @ moves)"
proof -
  have c: "0 < DRAW_SPEED" "0 < DT" by (simp_all add: DRAW_SPEED_def DT_def)
  obtain moves where mv: "interpolate_linear (cx, cy) (tx, ty) DRAW_SPEED DT 1 = Some moves"
    using interpolate_linear_nondegenerate(1) [OF nd c] by blast
  from linear_last_end(1) [OF nd c mv] have ne: "moves \<noteq> []" .
  have "\<exists>pre. process_target (cx, cy, traj) (tx, ty, pen) = Some (tx, ty, pre @ moves)"
    using nd mv pen by (simp add: process_target_def Let_def)
  then show ?thesis using mv ne by blast
qed

text \<open>
  Claim C10. For a segment that is not degenerate, with positive speed and tick: the
  travel profiler returns the samples of the scaled times \<open>i * dt\<close> for
  \<open>i = 0, ..., n - 1\<close> (\<open>n\<close> at least 5), every scaling factor is below 1 and the
  last sample is not the end point; the draw profiler returns the samples of the
  fractions \<open>i / n\<close> for \<open>i = 1, ..., n\<close> and its last sample is the end point. The
  trajectory builder moves its current position to the target in both cases, so after a
  travel target the last sample of the trajectory is not the position the next segment
  starts from, and after a draw target it is.
\<close>

theorem profile_endpoints:
  assumes nd: "\<not> dist2 start_p end_p < 0.001" and sp: "0 < speed" and dt: "0 < dt"
  shows "(\<exists>moves n. interpolate_travel start_p end_p speed dt pen_state = Some moves
            \<and> 5 \<le> n
            \<and> moves = map (\<lambda>i. (fst start_p + (fst end_p - fst start_p)
                                     * get_quintic_scalar (real i * dt) (real n * dt),
                                  snd start_p + (snd end_p - snd start_p)
                                     * get_quintic_scalar (real i * dt) (real n * dt),
                                  pen_state)) [0 ..< n]
            \<and> (\<forall>i < n. get_quintic_scalar (real i * dt) (real n * dt) < 1)
            \<and> sample_pos (last moves) \<noteq> end_p)
       \<and> (\<exists>moves n. interpolate_linear start_p end_p speed dt pen_state = Some moves
            \<and> 1 \<le> n
            \<and> moves = map (\<lambda>i. (fst start_p + (fst end_p - fst start_p) * (real i / real n),
                                  snd start_p + (snd end_p - snd start_p) * (real i / real n),
                                  pen_state)) [1 ..< n + 1]
            \<and> last moves = (fst end_p, snd end_p, pen_state))
       \<and> (\<exists>traj'. process_target (fst start_p, snd start_p, traj) (fst end_p, snd end_p, 0)
                     = Some (fst end_p, snd end_p, traj')
            \<and> sample_pos (last traj') \<noteq> end_p)
       \<and> (\<forall>pen. pen \<noteq> 0 \<longrightarrow>
            (\<exists>traj'. process_target (fst start_p, snd start_p, traj) (fst end_p, snd end_p, pen)
                     = Some (fst end_p, snd end_p, traj')
            \<and> sample_pos (last traj') = end_p))"
proof -
  have ne: "speed \<noteq> 0" "dt \<noteq> 0" using sp dt by auto
  define n where "n = nat (travel_num_samples (dist2 start_p end_p) speed dt)"
  define moves where "moves = map (travel_sample start_p end_p dt (real n * dt) pen_state) [0 ..< n]"
  have mv: "interpolate_travel start_p end_p speed dt pen_state = Some moves"
    using interpolate_travel_nondegenerate [OF nd ne] by (simp add: moves_def n_def)
  have n5: "5 \<le> n" using travel_num_samples_ge [of "dist2 start_p end_p" speed dt] by (simp add: n_def)
  have lt: "get_quintic_scalar (real i * dt) (real n * dt) < 1" if "i < n" for i
    using that dt by (intro quintic_scalar_lt_1) simp
  have travel: "\<exists>moves n. interpolate_travel start_p end_p speed dt pen_state = Some moves
            \<and> 5 \<le> n
            \<and> moves = map (\<lambda>i. (fst start_p + (fst end_p - fst start_p)
                                     * get_quintic_scalar (real i * dt) (real n * dt),
                                  snd start_p + (snd end_p - snd start_p)
                                     * get_quintic_scalar (real i * dt) (real n * dt),
                                  pen_state)) [0 ..< n]
            \<and> (\<forall>i < n. get_quintic_scalar (real i * dt) (real n * dt) < 1)
            \<and> sample_pos (last moves) \<noteq> end_p"
    using mv n5 lt travel_last_short(2) [OF nd sp dt mv]
    by (intro exI [of _ moves] exI [of _ n]) (simp add: moves_def travel_sample_def Let_def)
  have draw: "\<exists>moves n. interpolate_linear start_p end_p speed dt pen_state = Some moves
            \<and> 1 \<le> n
            \<and> moves = map (\<lambda>i. (fst start_p + (fst end_p - fst start_p) * (real i / real n),
                                  snd start_p + (snd end_p - snd start_p) * (real i / real n),
                                  pen_state)) [1 ..< n + 1]
            \<and> last moves = (fst end_p, snd end_p, pen_state)"
    using interpolate_linear_nondegenerate(1) [OF nd sp dt, of pen_state]
      interpolate_linear_nondegenerate(2) [OF nd sp dt]
      linear_last_end(2) [OF nd sp dt, of pen_state] by blast
  have nd': "\<not> dist2 (fst start_p, snd start_p) (fst end_p, snd end_p) < 0.001" using nd by simp
  have c: "0 < TRAVEL_SPEED" "0 < DRAW_SPEED" "0 < DT"
    by (simp_all add: TRAVEL_SPEED_def DRAW_SPEED_def DT_def)
  have b0: "\<exists>traj'. process_target (fst start_p, snd start_p, traj) (fst end_p, snd end_p, 0)
                     = Some (fst end_p, snd end_p, traj')
            \<and> sample_pos (last traj') \<noteq> end_p"
  proof -
    from process_target_travel [OF nd', of traj] obtain mvs where
      m: "interpolate_travel (fst start_p, snd start_p) (fst end_p, snd end_p) TRAVEL_SPEED DT 0 = Some mvs"
         "mvs \<noteq> []"
         "process_target (fst start_p, snd start_p, traj) (fst end_p, snd end_p, 0)
            = Some (fst end_p, snd end_p, traj @ replicate 10 (fst start_p, snd start_p, 0) @ mvs)"
      by blast
    have "sample_pos (last mvs) \<noteq> (fst end_p, snd end_p)"
      using travel_last_short(2) [OF nd' c(1,3) m(1)] .
    then show ?thesis using m(2,3) by simp
  qed
  have b1: "\<exists>traj'. process_target (fst start_p, snd start_p, traj) (fst end_p, snd end_p, pen)
                     = Some (fst end_p, snd end_p, traj')
            \<and> sample_pos (last traj') = end_p" if "pen \<noteq> 0" for pen
  proof -
    from process_target_draw [OF nd' that, of traj] obtain mvs pre where
      m: "interpolate_linear (fst start_p, snd start_p) (fst end_p, snd end_p) DRAW_SPEED DT 1 = Some mvs"
         "mvs \<noteq> []"
         "process_target (fst start_p, snd start_p, traj) (fst end_p, snd end_p, pen)
            = Some (fst end_p, snd end_p, pre @ mvs)"
      by blast
    have "last mvs = (fst end_p, snd end_p, 1)"
      using linear_last_end(2) [OF nd' c(2,3) m(1)] by simp
    then show ?thesis using m(2,3) by (simp add: sample_pos_def)
  qed
  show ?thesis using travel draw b0 b1 by blast
qed


theorem profile_endpoints_witness:
  "\<not> dist2 (0, 0) (1, 0) < 0.001 \<and> (0::real) < 50 \<and> (0::real) < 0.02
   \<and> (\<exists>moves. interpolate_travel (0, 0) (1, 0) 50 0.02 0 = Some moves
          \<and> sample_pos (last moves) \<noteq> (1, 0))
   \<and> (\<exists>moves. interpolate_linear (0, 0) (1, 0) 50 0.02 0 = Some moves
          \<and> last moves = (1, 0, 0))
   \<and> (\<exists>traj'. process_target (0, 0, [(0, 0, 0)]) (1, 0, 0) = Some (1, 0, traj')
          \<and> sample_pos (last traj') \<noteq> (1, 0))
   \<and> (1::int) \<noteq> 0
   \<and> (\<exists>traj'. process_target (0, 0, [(0, 0, 0)]) (1, 0, 1) = Some (1, 0, traj')
          \<and> sample_pos (last traj') = (1, 0))"
proof -
  have h1: "\<not> dist2 (0, 0) (1, 0) < 0.001" by (simp add: dist2_def)
  have h2: "(0::real) < 50" by simp
  have h3: "(0::real) < 0.02" by simp
  have h4: "(1::int) \<noteq> 0" by simp
  from profile_endpoints [OF h1 h2 h3, of 0 "[(0, 0, 0)]"] h4
  have "(\<exists>moves. interpolate_travel (0, 0) (1, 0) 50 0.02 0 = Some moves
          \<and> sample_pos (last moves) \<noteq> (1, 0))
   \<and> (\<exists>moves. interpolate_linear (0, 0) (1, 0) 50 0.02 0 = Some moves
          \<and> last moves = (fst (1::real, 0::real), snd (1::real, 0::real), 0))
   \<and> (\<exists>traj'. process_target (fst (0::real, 0::real), snd (0::real, 0::real), [(0, 0, 0)])
                   (fst (1::real, 0::real), snd (1::real, 0::real), 0)
                 = Some (fst (1::real, 0::real), snd (1::real, 0::real), traj')
          \<and> sample_pos (last traj') \<noteq> (1, 0))
   \<and> (\<exists>traj'. process_target (fst (0::real, 0::real), snd (0::real, 0::real), [(0, 0, 0)])
                   (fst (1::real, 0::real), snd (1::real, 0::real), 1)
                 = Some (fst (1::real, 0::real), snd (1::real, 0::real), traj')
          \<and> sample_pos (last traj') = (1, 0))"
    by blast
  then show ?thesis using h1 h2 h3 h4 by (simp only: fst_conv snd_conv) blast
qed

lemma home_target_trajectory:
  "build_full_trajectory r [(HOME_X, HOME_Y r, 0)] = Some (replicate 12 (HOME_X, HOME_Y r, 0))"
proof -
  have d: "dist2 (HOME_X, HOME_Y r) (HOME_X, HOME_Y r) < 0.001" by (simp add: dist2_def)
  have "process_target (HOME_X, HOME_Y r, [(HOME_X, HOME_Y r, 0)]) (HOME_X, HOME_Y r, 0)
      = Some (HOME_X, HOME_Y r, [(HOME_X, HOME_Y r, 0)] @ replicate 10 (HOME_X, HOME_Y r, 0)
                @ [(HOME_X, HOME_Y r, 0)])"
    using d by (simp add: process_target_def Let_def dwell_ticks interpolate_travel_def)
  moreover have "[(HOME_X, HOME_Y r, 0)] @ replicate 10 (HOME_X, HOME_Y r, 0) @ [(HOME_X, HOME_Y r, 0)]
      = replicate 12 (HOME_X, HOME_Y r, 0::int)"
    by (simp add: eval_nat_numeral replicate_append_same)
  ultimately show ?thesis by (simp add: build_full_trajectory_def)
qed

lemma command_rows_at_offset:
  assumes "ik (fst smp) (fst (snd smp)) = Some (t1, t2)"
    and "py_int (t1 * STEPS_PER_RAD_J1) = o1" and "py_int (t2 * STEPS_PER_RAD_J2) = o2"
  shows "map J1_Delta (command_rows ik o1 o2 i 0 0 (replicate n smp)) = replicate n 0
       \<and> map J2_Delta (command_rows ik o1 o2 i 0 0 (replicate n smp)) = replicate n 0"
proof (induction n arbitrary: i)
  case 0
  show ?case by simp
next
  case (Suc n)
  have row: "J1_Pos (command_row ik o1 o2 i 0 0 smp) = 0" "J2_Pos (command_row ik o1 o2 i 0 0 smp) = 0"
            "J1_Delta (command_row ik o1 o2 i 0 0 smp) = 0" "J2_Delta (command_row ik o1 o2 i 0 0 smp) = 0"
    using assms by (cases smp; simp add: command_row_def)+
  show ?case using Suc.IH [of "Suc i"]
    by (simp add: command_rows_Cons row del: command_rows.simps(2))
qed

lemma home_target_commands:
  "\<exists>cmds. generate_commands r [(HOME_X, HOME_Y r, 0)] = Some cmds
      \<and> length cmds = 12
      \<and> map J1_Delta cmds = replicate 12 0
      \<and> map J2_Delta cmds = replicate 12 0"
proof -
  obtain t1 t2 where ik: "inverse_kinematics r HOME_X (HOME_Y r) = (t1, t2)" by fastforce
  define o1 where "o1 = py_int (t1 * STEPS_PER_RAD_J1)"
  define o2 where "o2 = py_int (t2 * STEPS_PER_RAD_J2)"
  have g: "generate_commands r [(HOME_X, HOME_Y r, 0)]
      = Some (command_rows (robot_ik r) o1 o2 0 0 0 (replicate 12 (HOME_X, HOME_Y r, 0)))"
    by (simp add: generate_commands_def home_target_trajectory motor_commands_def robot_ik_def ik
        o1_def o2_def del: command_rows.simps(2))
  have "robot_ik r (fst (HOME_X, HOME_Y r, 0::int)) (fst (snd (HOME_X, HOME_Y r, 0::int))) = Some (t1, t2)"
    by (simp add: robot_ik_def ik)
  from command_rows_at_offset [of "robot_ik r" "(HOME_X, HOME_Y r, 0)" t1 t2 o1 o2 0 12, OF this]
  show ?thesis using g by (simp add: o1_def o2_def command_rows_length del: command_rows.simps(2))
qed


text \<open>
  Claim C5, as amended. For the single waypoint at the home position with the pen up, the
  trajectory has exactly 12 samples, all at the home position with the pen up: the
  initial home sample, the 10 samples of the 0.2 s dwell before a travel move, and one
  sample for the target. The command table has 12 rows, each with both step deltas 0.
  For the links 160 and 149.5 the home position is (0, 309.5).
\<close>

theorem home_waypoint_scenario:
  "build_full_trajectory r [(HOME_X, HOME_Y r, 0)] = Some (replicate 12 (HOME_X, HOME_Y r, 0))
   \<and> (\<exists>cmds. generate_commands r [(HOME_X, HOME_Y r, 0)] = Some cmds
          \<and> length cmds = 12
          \<and> map J1_Delta cmds = replicate 12 0
          \<and> map J2_Delta cmds = replicate 12 0)"
  using home_target_trajectory home_target_commands by blast

theorem home_waypoint_scenario_witness:
  "build_full_trajectory \<lparr>l1 = 160, l2 = 149.5\<rparr> [(0, 309.5, 0)] = Some (replicate 12 (0, 309.5, 0))
   \<and> (\<exists>cmds. generate_commands \<lparr>l1 = 160, l2 = 149.5\<rparr> [(0, 309.5, 0)] = Some cmds
          \<and> length cmds = 12
          \<and> map J1_Delta cmds = replicate 12 0
          \<and> map J2_Delta cmds = replicate 12 0)"
  using home_waypoint_scenario [of "\<lparr>l1 = 160, l2 = 149.5\<rparr>"]
  by (simp add: HOME_X_def HOME_Y_def)

theorem home_waypoint_not_one_sample:
  "map_option length (build_full_trajectory \<lparr>l1 = 160, l2 = 149.5\<rparr> [(0, 309.5, 0)]) = Some 12
   \<and> map_option length (build_full_trajectory \<lparr>l1 = 160, l2 = 149.5\<rparr> [(0, 309.5, 0)]) \<noteq> Some 1"
  using home_target_trajectory [of "\<lparr>l1 = 160, l2 = 149.5\<rparr>"]
  by (simp add: HOME_X_def HOME_Y_def)

section \<open>Stopping at a failing row\<close>

lemma attempt_all_ok: "\<forall>c \<in> set cs. ok c \<Longrightarrow> attempt ok cs = (cs, True)"
  by (induction cs) simp_all

lemma attempt_fail: "\<exists>c \<in> set cs. \<not> ok c \<Longrightarrow> \<not> snd (attempt ok cs)"
  by (induction cs) (auto simp: case_prod_beta)

lemma attempt_take: "\<exists>m. fst (attempt ok cs) = take m cs"
proof (induction cs)
  case Nil
  show ?case by simp
next
  case (Cons c cs)
  then obtain m where m: "fst (attempt ok cs) = take m cs" by blast
  show ?case
  proof (cases "ok c")
    case True
    then have "fst (attempt ok (c # cs)) = take (Suc m) (c # cs)"
      using m by (simp add: case_prod_beta)
    then show ?thesis by blast
  next
    case False
    then have "fst (attempt ok (c # cs)) = take (Suc 0) (c # cs)" by simp
    then show ?thesis by blast
  qed
qed

lemma is_error_simps:
  "is_error (Error_at_row j)" "\<not> is_error Stopping_execution" "\<not> is_error (Serving_row n v)"
  "\<not> is_error (Row_progress n)" "\<not> is_error (M3_trigger_started n)"
  "\<not> is_error Trajectory_execution_complete" "\<not> is_error M3_trigger_disabled"
  by (simp_all add: is_error_def)

lemma grid_stream_step_fail:
  assumes "\<not> snd (attempt (call_ok env i) (grid_row_calls row))"
  shows "grid_stream env i (row # rows)
           = (fst (attempt (call_ok env i) (grid_row_calls row)), [Error_at_row i, Stopping_execution])"
  using assms by (simp add: case_prod_beta)

lemma grid_stream_step_ok:
  assumes "attempt (call_ok env i) (grid_row_calls row) = (grid_row_calls row, True)"
  shows "grid_stream env i (row # rows)
           = (grid_row_calls row @ fst (grid_stream env (Suc i) rows),
              Serving_row (i + 1) (Pen row) # (if i mod 10 = 0 then [Row_progress i] else [])
                @ snd (grid_stream env (Suc i) rows))"
  using assms by (simp add: case_prod_beta)

lemma grid_stream_fail:
  assumes "k < length rows"
    and "\<forall>j < k. \<forall>c \<in> set (grid_row_calls (rows ! j)). call_ok env (i + j) c"
    and "\<exists>c \<in> set (grid_row_calls (rows ! k)). \<not> call_ok env (i + k) c"
  shows "fst (grid_stream env i rows)
           = concat (map grid_row_calls (take k rows))
             @ fst (attempt (call_ok env (i + k)) (grid_row_calls (rows ! k)))
       \<and> filter is_error (snd (grid_stream env i rows)) = [Error_at_row (i + k)]"
  using assms
proof (induction rows arbitrary: i k)
  case Nil
  then show ?case by simp
next
  case (Cons row rows)
  show ?case
  proof (cases k)
    case 0
    with Cons.prems(3) have "\<not> snd (attempt (call_ok env i) (grid_row_calls row))"
      by (intro attempt_fail) simp
    from grid_stream_step_fail [OF this] show ?thesis using 0 by (simp add: is_error_simps)
  next
    case (Suc k')
    have ok: "attempt (call_ok env i) (grid_row_calls row) = (grid_row_calls row, True)"
      using Cons.prems(2) [rule_format, of 0] Suc by (intro attempt_all_ok) simp
    have 1: "k' < length rows" using Cons.prems(1) Suc by simp
    have 2: "\<forall>j < k'. \<forall>c \<in> set (grid_row_calls (rows ! j)). call_ok env (Suc i + j) c"
      using Cons.prems(2) Suc by (metis Suc_less_eq add_Suc_shift nth_Cons_Suc)
    have 3: "\<exists>c \<in> set (grid_row_calls (rows ! k')). \<not> call_ok env (Suc i + k') c"
      using Cons.prems(3) Suc by simp
    from Cons.IH [OF 1 2 3] show ?thesis using Suc
      by (simp add: grid_stream_step_ok [OF ok] is_error_simps del: grid_stream.simps(2))
  qed
qed

lemma sender_stream_step_fail:
  assumes "\<not> snd (attempt (call_ok env i) (sender_row_calls env i row))"
  shows "fst (sender_stream env i en (row # rows))
           = fst (attempt (call_ok env i) (sender_row_calls env i row))
       \<and> filter is_error (snd (sender_stream env i en (row # rows))) = [Error_at_row i]"
  using assms by (simp add: case_prod_beta Let_def is_error_simps)

lemma sender_stream_step_ok:
  assumes "attempt (call_ok env i) (sender_row_calls env i row) = (sender_row_calls env i row, True)"
  shows "\<exists>en'. fst (sender_stream env i en (row # rows))
           = sender_row_calls env i row @ fst (sender_stream env (Suc i) en' rows)
       \<and> filter is_error (snd (sender_stream env i en (row # rows)))
           = filter is_error (snd (sender_stream env (Suc i) en' rows))"
  using assms by (simp add: case_prod_beta Let_def is_error_simps) blast

lemma sender_stream_fail:
  assumes "k < length rows"
    and "\<forall>j < k. \<forall>c \<in> set (sender_row_calls env (i + j) (rows ! j)). call_ok env (i + j) c"
    and "\<exists>c \<in> set (sender_row_calls env (i + k) (rows ! k)). \<not> call_ok env (i + k) c"
  shows "fst (sender_stream env i en rows)
           = concat (map (\<lambda>(j, row). sender_row_calls env (i + j) row) (zip [0 ..< k] (take k rows)))
             @ fst (attempt (call_ok env (i + k)) (sender_row_calls env (i + k) (rows ! k)))
       \<and> filter is_error (snd (sender_stream env i en rows)) = [Error_at_row (i + k)]"
  using assms
proof (induction rows arbitrary: i k en)
  case Nil
  then show ?case by simp
next
  case (Cons row rows)
  show ?case
  proof (cases k)
    case 0
    with Cons.prems(3) have "\<not> snd (attempt (call_ok env i) (sender_row_calls env i row))"
      by (intro attempt_fail) simp
    from sender_stream_step_fail [OF this] show ?thesis using 0
      by (simp del: sender_stream.simps(2))
  next
    case (Suc k')
    have ok: "attempt (call_ok env i) (sender_row_calls env i row) = (sender_row_calls env i row, True)"
      using Cons.prems(2) [rule_format, of 0] Suc by (intro attempt_all_ok) simp
    have 1: "k' < length rows" using Cons.prems(1) Suc by simp
    have 2: "\<forall>j < k'. \<forall>c \<in> set (sender_row_calls env (Suc i + j) (rows ! j)). call_ok env (Suc i + j) c"
      using Cons.prems(2) Suc by (metis Suc_less_eq add_Suc_shift nth_Cons_Suc)
    have 3: "\<exists>c \<in> set (sender_row_calls env (Suc i + k') (rows ! k')). \<not> call_ok env (Suc i + k') c"
      using Cons.prems(3) Suc by simp
    have z: "zip [0 ..< Suc k'] (row # take k' rows) = (0, row) # zip (map Suc [0 ..< k']) (take k' rows)"
      by (simp add: upt_conv_Cons map_Suc_upt del: upt_Suc)
    have c: "concat (map (\<lambda>(j, row). sender_row_calls env (i + j) row) (zip (map Suc [0 ..< k']) (take k' rows)))
        = concat (map (\<lambda>(j, row). sender_row_calls env (Suc i + j) row) (zip [0 ..< k'] (take k' rows)))"
      by (simp add: zip_map1 case_prod_unfold comp_def)
    from sender_stream_step_ok [OF ok, of en rows] obtain en' where
      st: "fst (sender_stream env i en (row # rows))
           = sender_row_calls env i row @ fst (sender_stream env (Suc i) en' rows)"
          "filter is_error (snd (sender_stream env i en (row # rows)))
           = filter is_error (snd (sender_stream env (Suc i) en' rows))"
      by blast
    from Cons.IH [OF 1 2 3, of en'] show ?thesis using Suc
      by (simp add: st z c del: sender_stream.simps(2) upt_Suc)
  qed
qed


text \<open>
  Claim C6. When a PLC call fails at row \<open>k\<close> of the table, the calls a sender makes are
  exactly: the calls of rows 0 to \<open>k - 1\<close>, the calls of row \<open>k\<close> up to the
  one that raises, and then one write of 0 to the trigger bit (\<open>M4\<close> in
  \<open>trajectory_sender_grid_3.py\<close>, \<open>M3\<close> in \<open>trajectory_sender.py\<close>); no call of a
  later row is made. The only error line printed is "Error at row \<open>k\<close>".
\<close>

theorem dispatch_stops_at_failing_row:
  "(grid_fails_at env rows k \<longrightarrow>
      fst (grid_dispatch env rows)
        = concat (map grid_row_calls (take k rows))
          @ fst (attempt (call_ok env k) (grid_row_calls (rows ! k)))
          @ [write_bit ''M4'' [0]]
      \<and> filter is_error (snd (grid_dispatch env rows)) = [Error_at_row k])
   \<and> (sender_fails_at env rows k \<longrightarrow>
      fst (sender_dispatch env rows)
        = concat (map (\<lambda>(j, row). sender_row_calls env j row) (zip [0 ..< k] (take k rows)))
          @ fst (attempt (call_ok env k) (sender_row_calls env k (rows ! k)))
          @ [write_bit ''M3'' [0]]
      \<and> filter is_error (snd (sender_dispatch env rows)) = [Error_at_row k])"
proof (intro conjI impI)
  assume f: "grid_fails_at env rows k"
  then have "k < length rows"
    "\<forall>j < k. \<forall>c \<in> set (grid_row_calls (rows ! j)). call_ok env (0 + j) c"
    "\<exists>c \<in> set (grid_row_calls (rows ! k)). \<not> call_ok env (0 + k) c"
    by (simp_all add: grid_fails_at_def)
  from grid_stream_fail [OF this]
  show "fst (grid_dispatch env rows)
        = concat (map grid_row_calls (take k rows))
          @ fst (attempt (call_ok env k) (grid_row_calls (rows ! k)))
          @ [write_bit ''M4'' [0]]"
    and "filter is_error (snd (grid_dispatch env rows)) = [Error_at_row k]"
    by (simp_all add: grid_dispatch_def case_prod_beta is_error_simps)
next
  assume f: "sender_fails_at env rows k"
  then have "k < length rows"
    "\<forall>j < k. \<forall>c \<in> set (sender_row_calls env (0 + j) (rows ! j)). call_ok env (0 + j) c"
    "\<exists>c \<in> set (sender_row_calls env (0 + k) (rows ! k)). \<not> call_ok env (0 + k) c"
    by (simp_all add: sender_fails_at_def)
  from sender_stream_fail [OF this, of False]
  show "fst (sender_dispatch env rows)
        = concat (map (\<lambda>(j, row). sender_row_calls env j row) (zip [0 ..< k] (take k rows)))
          @ fst (attempt (call_ok env k) (sender_row_calls env k (rows ! k)))
          @ [write_bit ''M3'' [0]]"
    and "filter is_error (snd (sender_dispatch env rows)) = [Error_at_row k]"
    by (simp_all add: sender_dispatch_def case_prod_beta is_error_simps)
qed

theorem dispatch_stops_at_failing_row_witness:
  "grid_fails_at (example_env 1) [example_row 10 1, example_row 20 1, example_row 30 1] 1
   \<and> fst (grid_dispatch (example_env 1) [example_row 10 1, example_row 20 1, example_row 30 1])
       = [write_sign_Dword ''D100'' [10, 500, 0, 0], write_bit ''M4'' [1],
          write_sign_Dword ''D100'' [20, 500, 0, 0],
          write_bit ''M4'' [0]]
   \<and> filter is_error (snd (grid_dispatch (example_env 1)
         [example_row 10 1, example_row 20 1, example_row 30 1])) = [Error_at_row 1]
   \<and> sender_fails_at (example_env 1) [example_row 10 1, example_row 20 1, example_row 30 1] 1
   \<and> fst (sender_dispatch (example_env 1) [example_row 10 1, example_row 20 1, example_row 30 1])
       = [read_bit ''M3'', write_bit ''M3'' [1], write_sign_Dword ''D100'' [0, 0, 10, 500],
          read_bit ''M3'',
          write_bit ''M3'' [0]]
   \<and> filter is_error (snd (sender_dispatch (example_env 1)
         [example_row 10 1, example_row 20 1, example_row 30 1])) = [Error_at_row 1]"
proof -
  let ?rows = "[example_row 10 1, example_row 20 1, example_row 30 1]"
  have g: "grid_fails_at (example_env 1) ?rows 1"
    by (auto simp: grid_fails_at_def example_env_def grid_row_calls_def example_row_def Let_def)
  have s: "sender_fails_at (example_env 1) ?rows 1"
    by (auto simp: sender_fails_at_def example_env_def sender_row_calls_def example_row_def Let_def)
  have p: "py_int 500 = 500" "py_int 0 = 0" by (simp_all add: py_int_def)
  from dispatch_stops_at_failing_row [of "example_env 1" ?rows 1] g s
  show ?thesis
    by (simp add: example_env_def example_row_def grid_row_calls_def sender_row_calls_def p
          del: grid_stream.simps sender_stream.simps)
qed

section \<open>Kinematics\<close>

lemma sqrt_one_plus_ratio:
  assumes "x \<noteq> 0"
  shows "sqrt (1 + (y / x)\<^sup>2) = sqrt (x\<^sup>2 + y\<^sup>2) / \<bar>x\<bar>"
proof -
  have "1 + (y / x)\<^sup>2 = (x\<^sup>2 + y\<^sup>2) / x\<^sup>2"
    using assms by (simp add: power_divide field_simps)
  then show ?thesis by (simp add: real_sqrt_divide)
qed

lemma atan2_cos_sin:
  assumes "x \<noteq> 0 \<or> y \<noteq> 0"
  shows "cos (atan2 y x) = x / sqrt (x\<^sup>2 + y\<^sup>2)"
    and "sin (atan2 y x) = y / sqrt (x\<^sup>2 + y\<^sup>2)"
proof -
  define r where "r = sqrt (x\<^sup>2 + y\<^sup>2)"
  have "0 < x\<^sup>2 + y\<^sup>2" using assms by (simp add: sum_power2_gt_zero_iff)
  then have rpos: "0 < r" by (simp add: r_def)
  have "cos (atan2 y x) = x / r \<and> sin (atan2 y x) = y / r"
  proof (cases "x = 0")
    case True
    then have y: "y \<noteq> 0" using assms by simp
    have "r = \<bar>y\<bar>" using True by (simp add: r_def)
    then show ?thesis using True y by (cases "0 < y") (simp_all add: atan2_def)
  next
    case False
    have s: "sqrt (1 + (y / x)\<^sup>2) = r / \<bar>x\<bar>" using sqrt_one_plus_ratio [OF False] by (simp add: r_def)
    have c: "cos (arctan (y / x)) = \<bar>x\<bar> / r" by (simp add: cos_arctan s)
    have sn: "sin (arctan (y / x)) = (y / x) * (\<bar>x\<bar> / r)" by (simp add: sin_arctan s)
    show ?thesis
    proof (cases "0 < x")
      case True
      then show ?thesis using c sn by (simp add: atan2_def)
    next
      case neg: False
      then have xn: "x < 0" using False by simp
      have c': "cos (arctan (y / x)) = - x / r" using c xn by simp
      have sn': "sin (arctan (y / x)) = - y / r" using sn xn by simp
      show ?thesis using xn c' sn' by (cases "0 \<le> y") (simp_all add: atan2_def)
    qed
  qed
  then show "cos (atan2 y x) = x / sqrt (x\<^sup>2 + y\<^sup>2)" "sin (atan2 y x) = y / sqrt (x\<^sup>2 + y\<^sup>2)"
    by (simp_all add: r_def)
qed

lemma atan2_unit:
  assumes "c\<^sup>2 + s\<^sup>2 = 1"
  shows "cos (atan2 s c) = c" and "sin (atan2 s c) = s"
proof -
  have "c \<noteq> 0 \<or> s \<noteq> 0" using assms by auto
  from atan2_cos_sin [OF this] show "cos (atan2 s c) = c" "sin (atan2 s c) = s"
    using assms by simp_all
qed


lemma reach_bounds_cos:
  assumes l: "0 < a" "0 < b"
    and lo: "\<bar>a - b\<bar> \<le> sqrt (x\<^sup>2 + y\<^sup>2)" and hi: "sqrt (x\<^sup>2 + y\<^sup>2) \<le> a + b"
  shows "- 1 \<le> (x\<^sup>2 + y\<^sup>2 - a\<^sup>2 - b\<^sup>2) / (2 * a * b)"
    and "(x\<^sup>2 + y\<^sup>2 - a\<^sup>2 - b\<^sup>2) / (2 * a * b) \<le> 1"
proof -
  define d where "d = sqrt (x\<^sup>2 + y\<^sup>2)"
  have d0: "0 \<le> d" and d2: "d\<^sup>2 = x\<^sup>2 + y\<^sup>2" by (simp_all add: d_def)
  have "\<bar>a - b\<bar>\<^sup>2 \<le> d\<^sup>2" using lo by (intro power_mono) (simp_all add: d_def)
  then have 1: "(a - b)\<^sup>2 \<le> x\<^sup>2 + y\<^sup>2" using d2 by simp
  have "d\<^sup>2 \<le> (a + b)\<^sup>2" using hi d0 by (intro power_mono) (simp_all add: d_def)
  then have 2: "x\<^sup>2 + y\<^sup>2 \<le> (a + b)\<^sup>2" using d2 by simp
  have p: "0 < 2 * a * b" using l by simp
  have "- (2 * a * b) \<le> x\<^sup>2 + y\<^sup>2 - a\<^sup>2 - b\<^sup>2" using 1 by (simp add: power2_diff algebra_simps)
  then show "- 1 \<le> (x\<^sup>2 + y\<^sup>2 - a\<^sup>2 - b\<^sup>2) / (2 * a * b)"
    using p by (simp add: le_divide_eq del: mult_pos_pos)
  have "x\<^sup>2 + y\<^sup>2 - a\<^sup>2 - b\<^sup>2 \<le> 2 * a * b" using 2 by (simp add: power2_sum algebra_simps)
  then show "(x\<^sup>2 + y\<^sup>2 - a\<^sup>2 - b\<^sup>2) / (2 * a * b) \<le> 1"
    using p by (simp add: divide_le_eq del: mult_pos_pos)
qed

lemma clamp_c2_id: "- 1 \<le> c \<Longrightarrow> c \<le> 1 \<Longrightarrow> clamp_c2 c = c"
  by (simp add: clamp_c2_def)

lemma rotate_back:
  fixes A B x y :: real
  assumes d: "A\<^sup>2 + B\<^sup>2 = x\<^sup>2 + y\<^sup>2" and dp: "0 < x\<^sup>2 + y\<^sup>2"
  defines "c1 \<equiv> (y * A + x * B) / (x\<^sup>2 + y\<^sup>2)" and "s1 \<equiv> (- x * A + y * B) / (x\<^sup>2 + y\<^sup>2)"
  shows "c1\<^sup>2 + s1\<^sup>2 = 1" and "c1 * B - s1 * A = x" and "s1 * B + c1 * A = y"
proof -
  define d where "d = x\<^sup>2 + y\<^sup>2"
  define p where "p = y * A + x * B"
  define q where "q = - x * A + y * B"
  have dn: "d \<noteq> 0" using dp unfolding d_def by linarith
  have AB: "A\<^sup>2 + B\<^sup>2 = d" using d by (simp add: d_def)
  have cs: "c1 = p / d" "s1 = q / d" by (simp_all add: c1_def s1_def p_def q_def d_def)
  have "p\<^sup>2 + q\<^sup>2 = (x\<^sup>2 + y\<^sup>2) * (A\<^sup>2 + B\<^sup>2)"
    by (simp add: p_def q_def power2_eq_square algebra_simps)
  then have e1: "p\<^sup>2 + q\<^sup>2 = d * d" by (simp only: AB d_def [symmetric])
  have "c1\<^sup>2 + s1\<^sup>2 = (p\<^sup>2 + q\<^sup>2) / (d * d)"
    by (simp add: cs power_divide add_divide_distrib power2_eq_square)
  then show "c1\<^sup>2 + s1\<^sup>2 = 1" using dn by (simp add: e1)
  have "p * B - q * A = x * (A\<^sup>2 + B\<^sup>2)"
    by (simp add: p_def q_def power2_eq_square algebra_simps)
  then have e2: "p * B - q * A = x * d" by (simp only: AB)
  have "c1 * B - s1 * A = (p * B - q * A) / d"
    by (simp add: cs diff_divide_distrib)
  then show "c1 * B - s1 * A = x" using dn by (simp add: e2)
  have "q * B + p * A = y * (A\<^sup>2 + B\<^sup>2)"
    by (simp add: p_def q_def power2_eq_square algebra_simps)
  then have e3: "q * B + p * A = y * d" by (simp only: AB)
  have "s1 * B + c1 * A = (q * B + p * A) / d"
    by (simp add: cs add_divide_distrib)
  then show "s1 * B + c1 * A = y" using dn by (simp add: e3)
qed

lemma ik3_round_trip:
  assumes l: "0 < l1 r" "0 < l2 r"
    and lo: "\<bar>l1 r - l2 r\<bar> \<le> sqrt (x\<^sup>2 + y\<^sup>2)" and hi: "sqrt (x\<^sup>2 + y\<^sup>2) \<le> l1 r + l2 r"
    and nz: "x \<noteq> 0 \<or> y \<noteq> 0"
  shows "tool_point (forward_kinematics r (fst (inverse_kinematics r x y))
           (snd (inverse_kinematics r x y))) = (x, y)"
proof -
  define c2 where "c2 = cos_theta2_raw r x y"
  define s2 where "s2 = sqrt (1 - c2\<^sup>2)"
  define A where "A = l2 r * s2"
  define B where "B = l1 r + l2 r * c2"
  define c1 where "c1 = (y * A + x * B) / (x\<^sup>2 + y\<^sup>2)"
  define s1 where "s1 = (- x * A + y * B) / (x\<^sup>2 + y\<^sup>2)"
  have cb: "- 1 \<le> c2" "c2 \<le> 1"
    using reach_bounds_cos [OF l lo hi] by (simp_all add: c2_def cos_theta2_raw_def)
  have cl: "clamp_c2 (cos_theta2_raw r x y) = c2" using cb by (simp add: clamp_c2_id c2_def)
  have "c2\<^sup>2 \<le> 1" using cb by (simp add: abs_square_le_1 abs_le_iff)
  then have s22: "s2\<^sup>2 = 1 - c2\<^sup>2" by (simp add: s2_def)
  then have unit2: "c2\<^sup>2 + s2\<^sup>2 = 1" by simp
  have dp: "0 < x\<^sup>2 + y\<^sup>2" using nz by (simp add: sum_power2_gt_zero_iff)
  have den: "2 * l1 r * l2 r \<noteq> 0" using l by simp
  have num: "2 * l1 r * l2 r * c2 = x\<^sup>2 + y\<^sup>2 - (l1 r)\<^sup>2 - (l2 r)\<^sup>2"
    using den by (simp add: c2_def cos_theta2_raw_def)
  have "A\<^sup>2 + B\<^sup>2 = (l2 r)\<^sup>2 * (c2\<^sup>2 + s2\<^sup>2) + (l1 r)\<^sup>2 + 2 * l1 r * l2 r * c2"
    by (simp add: A_def B_def power2_sum power_mult_distrib algebra_simps)
  also have "\<dots> = x\<^sup>2 + y\<^sup>2" by (simp add: unit2 num)
  finally have AB: "A\<^sup>2 + B\<^sup>2 = x\<^sup>2 + y\<^sup>2" .
  note rb = rotate_back [OF AB dp, folded c1_def s1_def]
  have nz': "\<not> (x = 0 \<and> y = 0)" using nz by simp
  have ik: "inverse_kinematics r x y = (atan2 s1 c1, atan2 s2 c2)"
    using den nz'
    by (auto simp add: inverse_kinematics_def Let_def cl s2_def [symmetric]
          c1_def s1_def A_def B_def mult.assoc)
  have t2: "cos (atan2 s2 c2) = c2" "sin (atan2 s2 c2) = s2" using atan2_unit [OF unit2] .
  have t1: "cos (atan2 s1 c1) = c1" "sin (atan2 s1 c1) = s1" using atan2_unit [OF rb(1)] .
  have xf: "l1 r * c1 + l2 r * (c1 * c2 - s1 * s2) = c1 * B - s1 * A"
    by (simp add: A_def B_def algebra_simps)
  have yf: "l1 r * s1 + l2 r * (s1 * c2 + c1 * s2) = s1 * B + c1 * A"
    by (simp add: A_def B_def algebra_simps)
  show ?thesis
    by (simp add: ik forward_kinematics_def tool_point_def Let_def cos_add sin_add t1 t2 xf yf rb)
qed


lemma radians_degrees: "radians (degrees a) = a"
  by (simp add: radians_def degrees_def)

lemma controller_round_trip:
  assumes l: "0 < ctl_L1 c" "0 < ctl_L2 c"
    and mx: "max_reach c = ctl_L1 c + ctl_L2 c" and mn: "min_reach c = \<bar>ctl_L1 c - ctl_L2 c\<bar>"
    and lo: "min_reach c \<le> sqrt (x\<^sup>2 + y\<^sup>2)" and hi: "sqrt (x\<^sup>2 + y\<^sup>2) \<le> max_reach c"
  shows "\<exists>t1 t2. controller_inverse_kinematics c x y = Some (t1, t2, True)
           \<and> controller_forward_kinematics c t1 t2 = (x, y)"
proof -
  define c2 where "c2 = (x\<^sup>2 + y\<^sup>2 - (ctl_L1 c)\<^sup>2 - (ctl_L2 c)\<^sup>2) / (2 * ctl_L1 c * ctl_L2 c)"
  define s2 where "s2 = sqrt (1 - c2\<^sup>2)"
  define th2 where "th2 = atan2 s2 c2"
  define A where "A = ctl_L2 c * s2"
  define B where "B = ctl_L1 c + ctl_L2 c * c2"
  define th1 where "th1 = atan2 y x - atan2 A B"
  have lo': "\<bar>ctl_L1 c - ctl_L2 c\<bar> \<le> sqrt (x\<^sup>2 + y\<^sup>2)" using lo mn by simp
  have hi': "sqrt (x\<^sup>2 + y\<^sup>2) \<le> ctl_L1 c + ctl_L2 c" using hi mx by simp
  have cb: "- 1 \<le> c2" "c2 \<le> 1" using reach_bounds_cos [OF l lo' hi'] by (simp_all add: c2_def)
  then have ab: "\<not> 1 < \<bar>c2\<bar>" by simp
  have "c2\<^sup>2 \<le> 1" using cb by (simp add: abs_square_le_1 abs_le_iff)
  then have s22: "s2\<^sup>2 = 1 - c2\<^sup>2" by (simp add: s2_def)
  then have unit2: "c2\<^sup>2 + s2\<^sup>2 = 1" by simp
  have t2: "cos th2 = c2" "sin th2 = s2" using atan2_unit [OF unit2] by (simp_all add: th2_def)
  have den: "2 * ctl_L1 c * ctl_L2 c \<noteq> 0" using l by simp
  have num: "2 * ctl_L1 c * ctl_L2 c * c2 = x\<^sup>2 + y\<^sup>2 - (ctl_L1 c)\<^sup>2 - (ctl_L2 c)\<^sup>2"
    using den by (simp add: c2_def)
  have "A\<^sup>2 + B\<^sup>2 = (ctl_L2 c)\<^sup>2 * (c2\<^sup>2 + s2\<^sup>2) + (ctl_L1 c)\<^sup>2 + 2 * ctl_L1 c * ctl_L2 c * c2"
    by (simp add: A_def B_def power2_sum power_mult_distrib algebra_simps)
  also have "\<dots> = x\<^sup>2 + y\<^sup>2" by (simp add: unit2 num)
  finally have AB: "A\<^sup>2 + B\<^sup>2 = x\<^sup>2 + y\<^sup>2" .
  have ik: "controller_inverse_kinematics c x y = Some (degrees th1, degrees th2, True)"
    using lo hi den ab
    by (simp add: controller_inverse_kinematics_def Let_def c2_def [symmetric] s2_def [symmetric]
          th2_def [symmetric] t2 A_def [symmetric] B_def [symmetric] th1_def)
  have fk: "controller_forward_kinematics c (degrees th1) (degrees th2)
      = (ctl_L1 c * cos th1 + ctl_L2 c * cos (th1 + th2),
         ctl_L1 c * sin th1 + ctl_L2 c * sin (th1 + th2))"
    by (simp add: controller_forward_kinematics_def Let_def radians_degrees)
  have xf: "ctl_L1 c * cos th1 + ctl_L2 c * cos (th1 + th2) = cos th1 * B - sin th1 * A"
    by (simp add: cos_add t2 A_def B_def algebra_simps)
  have yf: "ctl_L1 c * sin th1 + ctl_L2 c * sin (th1 + th2) = sin th1 * B + cos th1 * A"
    by (simp add: sin_add t2 A_def B_def algebra_simps)
  have "cos th1 * B - sin th1 * A = x \<and> sin th1 * B + cos th1 * A = y"
  proof (cases "x = 0 \<and> y = 0")
    case True
    then have "A\<^sup>2 + B\<^sup>2 = 0" using AB by simp
    then have "A = 0" "B = 0" by (simp_all add: sum_power2_eq_zero_iff)
    then show ?thesis using True by simp
  next
    case False
    then have nz: "x \<noteq> 0 \<or> y \<noteq> 0" by simp
    then have dp: "0 < x\<^sup>2 + y\<^sup>2" by (simp add: sum_power2_gt_zero_iff)
    define d where "d = sqrt (x\<^sup>2 + y\<^sup>2)"
    have d2: "d * d = x\<^sup>2 + y\<^sup>2" using dp by (simp add: d_def)
    have "0 < B\<^sup>2 + A\<^sup>2" using dp AB by (simp add: add.commute)
    then have nzk: "B \<noteq> 0 \<or> A \<noteq> 0" by (simp add: sum_power2_gt_zero_iff)
    have dk: "sqrt (B\<^sup>2 + A\<^sup>2) = d" using AB by (simp add: d_def add.commute)
    have al: "cos (atan2 y x) = x / d" "sin (atan2 y x) = y / d"
      using atan2_cos_sin [OF nz] by (simp_all add: d_def)
    have be: "cos (atan2 A B) = B / d" "sin (atan2 A B) = A / d"
      using atan2_cos_sin [OF nzk] by (simp_all add: dk)
    have c1: "cos th1 = (y * A + x * B) / (x\<^sup>2 + y\<^sup>2)"
      by (simp add: th1_def cos_diff al be add_divide_distrib flip: d2)
    have s1: "sin th1 = (- x * A + y * B) / (x\<^sup>2 + y\<^sup>2)"
      by (simp add: th1_def sin_diff al be diff_divide_distrib flip: d2)
    from rotate_back(2,3) [OF AB dp] show ?thesis by (simp add: c1 s1)
  qed
  then show ?thesis using ik fk xf yf by simp
qed


text \<open>
  Claim C1. For every point whose distance from the origin lies between the minimum and
  the maximum reach, bounds included, the inverse kinematics reports the point reachable
  and forward kinematics applied to its angles gives the point back: for the grid-test
  controller (links 160 and 149.5, result flagged valid) and for the robot of
  \<open>IK3.py\<close> (links 155 and 160, angles returned), both on the elbow-up branch. Over
  the reals the round trip is exact.
\<close>

theorem ik_fk_round_trip:
  "(min_reach SCARARobotController_init \<le> sqrt (x\<^sup>2 + y\<^sup>2)
      \<and> sqrt (x\<^sup>2 + y\<^sup>2) \<le> max_reach SCARARobotController_init \<longrightarrow>
      (\<exists>t1 t2. controller_inverse_kinematics SCARARobotController_init x y = Some (t1, t2, True)
         \<and> controller_forward_kinematics SCARARobotController_init t1 t2 = (x, y)))
   \<and> (\<bar>l1 robot - l2 robot\<bar> \<le> sqrt (x\<^sup>2 + y\<^sup>2)
      \<and> sqrt (x\<^sup>2 + y\<^sup>2) \<le> l1 robot + l2 robot \<longrightarrow>
      (\<exists>t1 t2. robot_ik robot x y = Some (t1, t2)
         \<and> tool_point (forward_kinematics robot t1 t2) = (x, y)))"
proof (intro conjI impI)
  assume "min_reach SCARARobotController_init \<le> sqrt (x\<^sup>2 + y\<^sup>2)
      \<and> sqrt (x\<^sup>2 + y\<^sup>2) \<le> max_reach SCARARobotController_init"
  then show "\<exists>t1 t2. controller_inverse_kinematics SCARARobotController_init x y = Some (t1, t2, True)
         \<and> controller_forward_kinematics SCARARobotController_init t1 t2 = (x, y)"
    by (intro controller_round_trip) (simp_all add: SCARARobotController_init_def)
next
  assume a: "\<bar>l1 robot - l2 robot\<bar> \<le> sqrt (x\<^sup>2 + y\<^sup>2) \<and> sqrt (x\<^sup>2 + y\<^sup>2) \<le> l1 robot + l2 robot"
  have l: "0 < l1 robot" "0 < l2 robot" by (simp_all add: robot_def L1_def L2_def)
  have "5 \<le> sqrt (x\<^sup>2 + y\<^sup>2)" using a by (simp add: robot_def L1_def L2_def)
  then have "sqrt (x\<^sup>2 + y\<^sup>2) \<noteq> 0" by linarith
  then have nz: "x \<noteq> 0 \<or> y \<noteq> 0" by auto
  obtain t1 t2 where ik: "inverse_kinematics robot x y = (t1, t2)" by fastforce
  from ik3_round_trip [OF l _ _ nz] a
  have "tool_point (forward_kinematics robot t1 t2) = (x, y)" by (simp add: ik)
  then show "\<exists>t1 t2. robot_ik robot x y = Some (t1, t2)
         \<and> tool_point (forward_kinematics robot t1 t2) = (x, y)"
    by (simp add: robot_ik_def ik)
qed

theorem ik_fk_round_trip_witness:
  "min_reach SCARARobotController_init \<le> sqrt (200\<^sup>2 + 0\<^sup>2)
   \<and> sqrt (200\<^sup>2 + 0\<^sup>2) \<le> max_reach SCARARobotController_init
   \<and> (\<exists>t1 t2. controller_inverse_kinematics SCARARobotController_init 200 0 = Some (t1, t2, True)
         \<and> controller_forward_kinematics SCARARobotController_init t1 t2 = (200, 0))
   \<and> \<bar>l1 robot - l2 robot\<bar> \<le> sqrt (200\<^sup>2 + 0\<^sup>2)
   \<and> sqrt (200\<^sup>2 + 0\<^sup>2) \<le> l1 robot + l2 robot
   \<and> (\<exists>t1 t2. robot_ik robot 200 0 = Some (t1, t2)
         \<and> tool_point (forward_kinematics robot t1 t2) = (200, 0))"
proof -
  have s: "sqrt (200\<^sup>2 + 0\<^sup>2) = 200" by (rule real_sqrt_unique) simp_all
  have h1: "min_reach SCARARobotController_init \<le> sqrt (200\<^sup>2 + 0\<^sup>2)
      \<and> sqrt (200\<^sup>2 + 0\<^sup>2) \<le> max_reach SCARARobotController_init"
    unfolding s by (simp add: SCARARobotController_init_def)
  have h2: "\<bar>l1 robot - l2 robot\<bar> \<le> sqrt (200\<^sup>2 + 0\<^sup>2)
      \<and> sqrt (200\<^sup>2 + 0\<^sup>2) \<le> l1 robot + l2 robot"
    unfolding s by (simp add: robot_def L1_def L2_def)
  from ik_fk_round_trip [of 200 0] h1 h2 show ?thesis by blast
qed

section \<open>Points out of reach and the clamp\<close>

lemma ik3_at_400_0: "inverse_kinematics robot 400 0 = (0, 0)"
  by (simp add: inverse_kinematics_def robot_def L1_def L2_def cos_theta2_raw_def clamp_c2_def
        Let_def atan2_def)

lemma ik3_at_0_400: "inverse_kinematics robot 0 400 = (pi / 2, 0)"
  by (simp add: inverse_kinematics_def robot_def L1_def L2_def cos_theta2_raw_def clamp_c2_def
        Let_def atan2_def)

lemma ik3_at_home: "inverse_kinematics robot 0 315 = (pi / 2, 0)"
  by (simp add: inverse_kinematics_def robot_def L1_def L2_def cos_theta2_raw_def clamp_c2_def
        Let_def atan2_def)

lemma home_offsets:
  "py_int (pi / 2 * STEPS_PER_RAD_J1) = 3200" "py_int (pi * STEPS_PER_RAD_J1 / 2) = 3200"
  "py_int 0 = 0"
  by (simp_all add: STEPS_PER_RAD_J1_def STEPS_PER_REV_def MICROSTEPS_def GEAR_RATIO_J1_def py_int_def)

lemma sqrt_400: "sqrt (400\<^sup>2 + 0\<^sup>2) = 400"
  by (rule real_sqrt_unique) simp_all

text \<open>
  Claim C2, at a point the robot of \<open>IK3.py\<close> cannot reach. The point (400, 0) lies
  beyond the maximum reach 315. The inverse kinematics of \<open>IK3.py\<close> returns the
  angles (0, 0) for it and not the \<open>None\<close> its callers test for, so the command
  table moves joint 1 to step 3200 instead of holding step 0; the controller of
  \<open>scara_grid_test.py\<close> returns the same point as not valid.
\<close>

theorem ik3_accepts_unreachable_point:
  "l1 robot + l2 robot < sqrt (400\<^sup>2 + 0\<^sup>2)
   \<and> robot_ik robot 400 0 = Some (0, 0)
   \<and> controller_inverse_kinematics SCARARobotController_init 400 0 = Some (0, 0, False)
   \<and> map_option (map J1_Pos) (motor_commands (robot_ik robot) (HOME_X, HOME_Y robot)
         [(0, 315, 0), (400, 0, 0)]) = Some [0, 3200]"
proof -
  have 1: "l1 robot + l2 robot < sqrt (400\<^sup>2 + 0\<^sup>2)"
    unfolding sqrt_400 by (simp add: robot_def L1_def L2_def)
  have 2: "robot_ik robot 400 0 = Some (0, 0)" by (simp add: robot_ik_def ik3_at_400_0)
  have 3: "controller_inverse_kinematics SCARARobotController_init 400 0 = Some (0, 0, False)"
    unfolding controller_inverse_kinematics_def sqrt_400
    by (simp add: SCARARobotController_init_def)
  have hy: "HOME_Y robot = 315" by (simp add: HOME_Y_def robot_def L1_def L2_def)
  have h: "robot_ik robot 0 315 = Some (pi / 2, 0)" by (simp add: robot_ik_def ik3_at_home)
  have 4: "map_option (map J1_Pos) (motor_commands (robot_ik robot) (HOME_X, HOME_Y robot)
         [(0, 315, 0), (400, 0, 0)]) = Some [0, 3200]"
    by (simp add: motor_commands_def HOME_X_def hy h 2 home_offsets)
  show ?thesis using 1 2 3 4 by blast
qed


lemma scenario_ik_at_400_0: "inverse_kinematics \<lparr>l1 = 160, l2 = 149.5\<rparr> 400 0 = (0, 0)"
  by (simp add: inverse_kinematics_def cos_theta2_raw_def clamp_c2_def Let_def atan2_def power_divide)

lemma scenario_ik_at_home: "inverse_kinematics \<lparr>l1 = 160, l2 = 149.5\<rparr> 0 309.5 = (pi / 2, 0)"
  by (simp add: inverse_kinematics_def cos_theta2_raw_def clamp_c2_def Let_def atan2_def power_divide)

text \<open>
  Claim C3, at a sample out of reach. With the links 160 and 149.5 the home position
  is (0, 309.5) and the sample (400, 0) lies beyond the maximum reach 309.5. The command loop
  of \<open>IK3.py\<close> holds the previous step positions only when the inverse kinematics
  returns \<open>None\<close>, and the inverse kinematics it calls never does: for the sample
  (400, 0) it returns the angles (0, 0), so the row after the home row moves joint 1 from
  step 0 to step 3200 with a step delta of 3200 instead of holding.
\<close>

theorem unreachable_sample_not_held:
  "HOME_Y \<lparr>l1 = 160, l2 = 149.5\<rparr> < sqrt (400\<^sup>2 + 0\<^sup>2)
   \<and> robot_ik \<lparr>l1 = 160, l2 = 149.5\<rparr> 400 0 = Some (0, 0)
   \<and> map_option (map J1_Pos) (motor_commands (robot_ik \<lparr>l1 = 160, l2 = 149.5\<rparr>)
         (HOME_X, HOME_Y \<lparr>l1 = 160, l2 = 149.5\<rparr>) [(0, 309.5, 0), (400, 0, 0)]) = Some [0, 3200]
   \<and> map_option (map J1_Delta) (motor_commands (robot_ik \<lparr>l1 = 160, l2 = 149.5\<rparr>)
         (HOME_X, HOME_Y \<lparr>l1 = 160, l2 = 149.5\<rparr>) [(0, 309.5, 0), (400, 0, 0)]) = Some [0, 3200]
   \<and> (\<forall>r x y. robot_ik r x y \<noteq> None)"
proof -
  let ?r = "\<lparr>l1 = 160, l2 = 149.5\<rparr> :: ScaraRobot"
  have hy: "HOME_Y ?r = 309.5" by (simp add: HOME_Y_def)
  have 1: "HOME_Y ?r < sqrt (400\<^sup>2 + 0\<^sup>2)" unfolding sqrt_400 hy by simp
  have 2: "robot_ik ?r 400 0 = Some (0, 0)" using scenario_ik_at_400_0 by (simp add: robot_ik_def)
  have h: "robot_ik ?r 0 309.5 = Some (pi / 2, 0)" using scenario_ik_at_home by (simp add: robot_ik_def)
  have 3: "map_option (map J1_Pos) (motor_commands (robot_ik ?r) (HOME_X, HOME_Y ?r)
         [(0, 309.5, 0), (400, 0, 0)]) = Some [0, 3200]"
    using h 2 by (simp add: motor_commands_def HOME_X_def HOME_Y_def home_offsets)
  have 4: "map_option (map J1_Delta) (motor_commands (robot_ik ?r) (HOME_X, HOME_Y ?r)
         [(0, 309.5, 0), (400, 0, 0)]) = Some [0, 3200]"
    using h 2 by (simp add: motor_commands_def HOME_X_def HOME_Y_def home_offsets)
  have 5: "\<forall>r x y. robot_ik r x y \<noteq> None" by (simp add: robot_ik_def)
  show ?thesis using 1 2 3 4 5 by blast
qed

text \<open>
  Over the reals the raw cos theta2 of \<open>IK3.py\<close> exceeds 1 exactly for the points
  beyond the maximum reach, and the controller of \<open>scara_grid_test.py\<close> rejects every
  value of magnitude above 1.
\<close>

lemma sqrt_0_400: "sqrt (0\<^sup>2 + 400\<^sup>2) = 400"
  by (rule real_sqrt_unique) simp_all

lemma raw_cos_above_one:
  assumes "0 < l1 r" "0 < l2 r"
  shows "1 < cos_theta2_raw r x y \<longleftrightarrow> l1 r + l2 r < sqrt (x\<^sup>2 + y\<^sup>2)"
proof -
  have p: "0 < 2 * l1 r * l2 r" using assms by simp
  have "1 < cos_theta2_raw r x y \<longleftrightarrow> 2 * l1 r * l2 r < x\<^sup>2 + y\<^sup>2 - (l1 r)\<^sup>2 - (l2 r)\<^sup>2"
    using p by (simp add: cos_theta2_raw_def less_divide_eq del: mult_pos_pos)
  also have "\<dots> \<longleftrightarrow> (l1 r + l2 r)\<^sup>2 < x\<^sup>2 + y\<^sup>2"
    by (simp add: power2_sum algebra_simps)
  also have "\<dots> \<longleftrightarrow> sqrt ((l1 r + l2 r)\<^sup>2) < sqrt (x\<^sup>2 + y\<^sup>2)"
    by (simp only: real_sqrt_less_iff)
  also have "sqrt ((l1 r + l2 r)\<^sup>2) = l1 r + l2 r" using assms by simp
  finally show ?thesis .
qed

lemma controller_rejects_overshoot:
  assumes "1 < \<bar>controller_cos_theta2 SCARARobotController_init x y\<bar>"
  shows "controller_inverse_kinematics SCARARobotController_init x y = Some (0, 0, False)"
  using assms
  by (simp add: controller_inverse_kinematics_def controller_cos_theta2_def Let_def
        SCARARobotController_init_def)

text \<open>
  Claim C4, at a point whose raw cos theta2 is far above 1. For the robot of \<open>IK3.py\<close>
  the point (0, 400) gives the raw value 110375/49600, which exceeds 1 by much more than
  a tolerance of 1e-9. The inverse kinematics clamps it to 1 without a word and returns
  the angles of the boundary point (0, 315) instead of treating the point as
  unreachable; the controller of \<open>scara_grid_test.py\<close> returns the same point as not
  valid.
\<close>

theorem overshoot_silently_clamped:
  "1 + 1 / 10 ^ 9 < \<bar>cos_theta2_raw robot 0 400\<bar>
   \<and> clamp_c2 (cos_theta2_raw robot 0 400) = 1
   \<and> robot_ik robot 0 400 = Some (pi / 2, 0)
   \<and> robot_ik robot 0 315 = Some (pi / 2, 0)
   \<and> controller_inverse_kinematics SCARARobotController_init 0 400 = Some (0, 0, False)"
proof -
  have 1: "1 + 1 / 10 ^ 9 < \<bar>cos_theta2_raw robot 0 400\<bar>"
    by (simp add: cos_theta2_raw_def robot_def L1_def L2_def)
  have 2: "clamp_c2 (cos_theta2_raw robot 0 400) = 1"
    by (simp add: cos_theta2_raw_def robot_def L1_def L2_def clamp_c2_def)
  have 3: "controller_inverse_kinematics SCARARobotController_init 0 400 = Some (0, 0, False)"
    unfolding controller_inverse_kinematics_def sqrt_0_400
    by (simp add: SCARARobotController_init_def)
  show ?thesis using 1 2 3 by (simp add: robot_ik_def ik3_at_0_400 ik3_at_home)
qed

end
